theory Spec2Isabelle
  imports Complex_Main "HOL-Library.Word"
begin

unbundle bit_operations_syntax

section \<open>JavaScript values\<close>

text \<open>
  A JavaScript string is a sequence of 16-bit code units. The values that the session
  object and the cached session data hold are \<open>undefined\<close>, \<open>null\<close>, booleans, numbers
  (account ids: integers) and strings.
\<close>

type_synonym jsstring = "16 word list"

definition js :: "string \<Rightarrow> jsstring" where
  "js s = map (\<lambda>c. of_nat (of_char c)) s"

datatype jsval = JUndefined | JNull | JBool bool | JNum int | JStr jsstring

text \<open>The operand of \<open>!\<close>: \<open>undefined\<close>, \<open>null\<close>, \<open>false\<close>, \<open>0\<close> and \<open>""\<close> are falsy.\<close>

fun truthy :: "jsval \<Rightarrow> bool" where
  "truthy JUndefined = False"
| "truthy JNull = False"
| "truthy (JBool b) = b"
| "truthy (JNum n) = (n \<noteq> 0)"
| "truthy (JStr s) = (s \<noteq> [])"

text \<open>Decimal digits of a natural number, as a template literal renders an integer.\<close>

definition digit :: "nat \<Rightarrow> 16 word" where
  "digit d = of_nat (48 + d)"

function dec :: "nat \<Rightarrow> jsstring" where
  "dec n = (if n < 10 then [digit n] else dec (n div 10) @ [digit (n mod 10)])"
  by pat_completeness auto
termination
  by (relation "measure id") auto

declare dec.simps [simp del]

text \<open>The string a template literal \<open>${v}\<close> puts in place of \<open>v\<close>.\<close>

fun toString :: "jsval \<Rightarrow> jsstring" where
  "toString JUndefined = js ''undefined''"
| "toString JNull = js ''null''"
| "toString (JBool b) = (if b then js ''true'' else js ''false'')"
| "toString (JNum n) = (if n < 0 then js ''-'' @ dec (nat (- n)) else dec (nat n))"
| "toString (JStr s) = s"

section \<open>The session cache (Redis)\<close>

text \<open>
  \<open>createSession\<close> and \<open>restoreSession\<close> hand out objects with the two fields
  \<open>session_id\<close> and \<open>auth_key\<close>.
\<close>

record session_data =
  session_id :: jsval
  auth_key :: jsval

text \<open>
  Redis stores text. The guard reads a stored text in two steps: the test
  \<open>!cachedSession\<close>, then \<open>JSON.parse(cachedSession).session_id\<close>. A stored text is
  kept here by what these steps make of it:
  \<^item> \<open>EmptyText\<close>: the empty string, which \<open>!\<close> takes for a miss;
  \<^item> \<open>Malformed\<close>: a text that is not JSON, on which \<open>JSON.parse\<close> throws a SyntaxError;
  \<^item> \<open>JsonNull\<close>: the text \<open>null\<close>, on which reading \<open>.session_id\<close> throws a TypeError;
  \<^item> \<open>JsonObj d\<close>: any other JSON text; \<open>d\<close> holds its \<open>session_id\<close> and \<open>auth_key\<close>
    properties (\<open>JUndefined\<close> for a property it does not have). \<open>JSON.stringify\<close> of a
    session object is such a text, and parsing it gives the object back.
\<close>

datatype cached = EmptyText | Malformed | JsonNull | JsonObj session_data

datatype redis_cmd = GET jsstring | SETEX jsstring nat cached | DEL jsstring

text \<open>
  The client: whether the server answers, the keys with their values and expiry times
  (seconds), and the commands sent so far. A command sent to a server that does not
  answer throws.
\<close>

record redis =
  reachable :: bool
  store :: "jsstring \<rightharpoonup> cached \<times> nat"
  sent :: "redis_cmd list"

datatype redis_error = ConnectionError

definition redis_get :: "redis \<Rightarrow> nat \<Rightarrow> jsstring \<Rightarrow> (redis_error + cached option) \<times> redis" where
  "redis_get r now k =
     (let r' = r\<lparr>sent := sent r @ [GET k]\<rparr> in
      if \<not> reachable r then (Inl ConnectionError, r')
      else (case store r k of
              None \<Rightarrow> (Inr None, r')
            | Some (v, expires) \<Rightarrow> (if now < expires then Inr (Some v) else Inr None, r')))"

definition redis_setEx :: "redis \<Rightarrow> nat \<Rightarrow> jsstring \<Rightarrow> nat \<Rightarrow> cached \<Rightarrow> (redis_error + unit) \<times> redis" where
  "redis_setEx r now k ttl v =
     (let r' = r\<lparr>sent := sent r @ [SETEX k ttl v]\<rparr> in
      if \<not> reachable r then (Inl ConnectionError, r')
      else (Inr (), r'\<lparr>store := (store r)(k \<mapsto> (v, now + ttl))\<rparr>))"

definition redis_del :: "redis \<Rightarrow> jsstring \<Rightarrow> (redis_error + unit) \<times> redis" where
  "redis_del r k =
     (let r' = r\<lparr>sent := sent r @ [DEL k]\<rparr> in
      if \<not> reachable r then (Inl ConnectionError, r')
      else (Inr (), r'\<lparr>store := (store r)(k := None)\<rparr>))"

definition sessionKey :: "jsval \<Rightarrow> jsstring" where
  "sessionKey userId = js ''session:'' @ toString userId"

text \<open>
  \<open>AuthService.cacheUserSession\<close>: stores the session under \<open>session:<userId>\<close> for 24
  hours; a Redis error is logged and swallowed.
\<close>

definition cacheUserSession :: "redis \<Rightarrow> nat \<Rightarrow> jsval \<Rightarrow> session_data \<Rightarrow> redis" where
  "cacheUserSession r now userId sessionData =
     snd (redis_setEx r now (sessionKey userId) 86400 (JsonObj sessionData))"

text \<open>
  \<open>AuthService.verifySession\<close>: the whole body is inside \<open>try\<close>, and the \<open>catch\<close>
  returns \<open>true\<close>, whatever was thrown.
\<close>

definition verifySession :: "redis \<Rightarrow> nat \<Rightarrow> jsval \<Rightarrow> jsval \<Rightarrow> bool \<times> redis" where
  "verifySession r now userId sessionId =
     (case redis_get r now (sessionKey userId) of
        (Inl err, r') \<Rightarrow> (True, r')
      | (Inr None, r') \<Rightarrow> (False, r')
      | (Inr (Some EmptyText), r') \<Rightarrow> (False, r')
      | (Inr (Some Malformed), r') \<Rightarrow> (True, r')
      | (Inr (Some JsonNull), r') \<Rightarrow> (True, r')
      | (Inr (Some (JsonObj sessionData)), r') \<Rightarrow> (session_id sessionData = sessionId, r'))"

section \<open>The access guard (requireAuth)\<close>

text \<open>
  \<open>req.session\<close> is the HTTP session object that the session middleware attaches to a
  request; \<open>None\<close> is a request without one, on which reading \<open>req.session.userId\<close>
  throws. \<open>req.session.destroy()\<close> removes the object from the request.
\<close>

record http_session =
  userId :: jsval
  sessionId :: jsval

datatype code = AUTH_REQUIRED | SESSION_INVALID | AUTH_ERROR

text \<open>
  What the middleware does with the request: it calls \<open>next()\<close> after setting
  \<open>req.userId\<close> and \<open>req.sessionId\<close>, or it answers with a status and a code.
\<close>

datatype decision = Allowed jsval jsval | Denied nat code

definition requireAuth ::
  "redis \<Rightarrow> nat \<Rightarrow> http_session option \<Rightarrow> decision \<times> http_session option \<times> redis" where
  "requireAuth r now session =
     (case session of
        None \<Rightarrow> (Denied 500 AUTH_ERROR, None, r)
      | Some s \<Rightarrow>
          if \<not> truthy (userId s) \<or> \<not> truthy (sessionId s)
          then (Denied 401 AUTH_REQUIRED, Some s, r)
          else (case verifySession r now (userId s) (sessionId s) of
                  (sessionExists, r') \<Rightarrow>
                    if \<not> sessionExists
                    then (Denied 401 SESSION_INVALID, None, r')
                    else (Allowed (userId s) (sessionId s), Some s, r')))"

subsection \<open>Session keys determine the account id\<close>

lemma unat_digit: "d < 10 \<Longrightarrow> unat (digit d) = 48 + d"
  unfolding digit_def unat_of_nat by simp

lemma digit_inj: "a < 10 \<Longrightarrow> b < 10 \<Longrightarrow> digit a = digit b \<Longrightarrow> a = b"
  by (metis unat_digit add_left_cancel)

lemma digit_not_minus: "d < 10 \<Longrightarrow> digit d \<noteq> 45"
proof
  assume "d < 10" "digit d = 45"
  then have "unat (45 :: 16 word) = 48 + d"
    using unat_digit [of d] by simp
  then show False by simp
qed

lemma dec_nonempty: "dec n \<noteq> []"
  by (subst dec.simps) simp

lemma dec_inj: "dec m = dec n \<Longrightarrow> m = n"
proof (induction m arbitrary: n rule: dec.induct)
  case (1 m)
  show ?case
  proof (cases "m < 10")
    case True
    show ?thesis
    proof (cases "n < 10")
      case True
      with \<open>m < 10\<close> "1.prems" show ?thesis
        by (simp add: dec.simps [of m] dec.simps [of n] digit_inj)
    next
      case False
      with \<open>m < 10\<close> "1.prems" dec_nonempty [of "n div 10"] show ?thesis
        by (simp add: dec.simps [of m] dec.simps [of n])
    qed
  next
    case False
    show ?thesis
    proof (cases "n < 10")
      case True
      with False "1.prems" dec_nonempty [of "m div 10"] show ?thesis
        by (simp add: dec.simps [of m] dec.simps [of n])
    next
      case nb: False
      from False nb "1.prems"
      have eq: "dec (m div 10) = dec (n div 10)" "digit (m mod 10) = digit (n mod 10)"
        by (simp_all add: dec.simps [of m] dec.simps [of n])
      from "1.IH" [OF False eq(1)] have "m div 10 = n div 10" .
      moreover from eq(2) have "m mod 10 = n mod 10"
        by (simp add: digit_inj)
      ultimately show ?thesis
        by (metis div_mult_mod_eq)
    qed
  qed
qed

lemma dec_no_minus: "45 \<notin> set (dec n)"
proof (induction n rule: dec.induct)
  case (1 n)
  show ?case
  proof (cases "n < 10")
    case True
    then show ?thesis
      using digit_not_minus [of n] by (auto simp: dec.simps [of n])
  next
    case False
    then show ?thesis
      using "1.IH" digit_not_minus [of "n mod 10"] by (auto simp: dec.simps [of n])
  qed
qed

lemma js_minus: "js ''-'' = [45]"
  by (simp add: js_def)

lemma toString_num_inj:
  assumes eq: "toString (JNum a) = toString (JNum b)"
  shows "a = b"
proof -
  have neg: "js ''-'' @ dec m \<noteq> dec n" for m n
  proof
    assume "js ''-'' @ dec m = dec n"
    then have "45 \<in> set (dec n)"
      by (metis js_minus append_Cons list.set_intros(1))
    then show False using dec_no_minus by blast
  qed
  show ?thesis
  proof (cases "a < 0")
    case True
    show ?thesis
    proof (cases "b < 0")
      case True
      with \<open>a < 0\<close> eq have "dec (nat (- a)) = dec (nat (- b))" by simp
      then have "nat (- a) = nat (- b)" by (rule dec_inj)
      with True \<open>a < 0\<close> show ?thesis by simp
    next
      case False
      with True eq neg show ?thesis by simp
    qed
  next
    case False
    show ?thesis
    proof (cases "b < 0")
      case True
      with False eq neg [of "nat (- b)" "nat a"] show ?thesis by simp
    next
      case bn: False
      with False eq have "dec (nat a) = dec (nat b)" by simp
      then have "nat a = nat b" by (rule dec_inj)
      with False bn show ?thesis by simp
    qed
  qed
qed

lemma sessionKey_num_inj: "sessionKey (JNum a) = sessionKey (JNum b) \<Longrightarrow> a = b"
  by (simp add: sessionKey_def toString_num_inj)

subsection \<open>What the guard does to the store\<close>

lemma requireAuth_store: "store (snd (snd (requireAuth r now session))) = store r"
  by (auto simp: requireAuth_def verifySession_def redis_get_def Let_def
      split: option.splits cached.splits prod.splits sum.splits)

lemma requireAuth_sent:
  "sent (snd (snd (requireAuth r now session))) = sent r
   \<or> (\<exists>k. sent (snd (snd (requireAuth r now session))) = sent r @ [GET k])"
  by (auto simp: requireAuth_def verifySession_def redis_get_def Let_def
      split: option.splits cached.splits prod.splits sum.splits)

lemma requireAuth_auth_error_only_without_session:
  "fst (requireAuth r now (Some s)) \<noteq> Denied st AUTH_ERROR"
  by (auto simp: requireAuth_def verifySession_def redis_get_def Let_def
      split: option.splits cached.splits prod.splits sum.splits)

lemma requireAuth_unparsable_record:
  assumes "reachable r" and "truthy uid" and "truthy sid"
    and "store r (sessionKey uid) = Some (v, expires)" and "now < expires"
    and "v = Malformed \<or> v = JsonNull"
  shows "fst (requireAuth r now (Some \<lparr>userId = uid, sessionId = sid\<rparr>)) = Allowed uid sid"
  using assms by (auto simp: requireAuth_def verifySession_def redis_get_def)

lemma requireAuth_expired_record:
  assumes "reachable r" and "truthy uid" and "truthy sid"
    and "store r (sessionKey uid) = Some (v, expires)" and "expires \<le> now"
  shows "fst (requireAuth r now (Some \<lparr>userId = uid, sessionId = sid\<rparr>)) = Denied 401 SESSION_INVALID"
  using assms by (auto simp: requireAuth_def verifySession_def redis_get_def)

lemma cacheUserSession_other_key:
  "k \<noteq> sessionKey uid \<Longrightarrow> redis_get (cacheUserSession r t uid sd) now k
     = (fst (redis_get r now k),
        (cacheUserSession r t uid sd)\<lparr>sent := sent (cacheUserSession r t uid sd) @ [GET k]\<rparr>)"
  by (auto simp: cacheUserSession_def redis_setEx_def redis_get_def Let_def split: option.splits)

lemma cacheUserSession_reachable: "reachable (cacheUserSession r t uid sd) = reachable r"
  by (simp add: cacheUserSession_def redis_setEx_def Let_def)

text \<open>
  Caching a session for one account does not change what the guard answers to a request
  that names another account.
\<close>

lemma verifySession_fst:
  "fst (verifySession r now u sid) =
     (case fst (redis_get r now (sessionKey u)) of
        Inl e \<Rightarrow> True
      | Inr None \<Rightarrow> False
      | Inr (Some EmptyText) \<Rightarrow> False
      | Inr (Some Malformed) \<Rightarrow> True
      | Inr (Some JsonNull) \<Rightarrow> True
      | Inr (Some (JsonObj d)) \<Rightarrow> session_id d = sid)"
  by (simp add: verifySession_def split: prod.splits sum.splits option.splits cached.splits)

lemma requireAuth_fst:
  "fst (requireAuth r now (Some s)) =
     (if \<not> truthy (userId s) \<or> \<not> truthy (sessionId s) then Denied 401 AUTH_REQUIRED
      else if \<not> fst (verifySession r now (userId s) (sessionId s)) then Denied 401 SESSION_INVALID
      else Allowed (userId s) (sessionId s))"
  by (simp add: requireAuth_def split: prod.splits)

lemma requireAuth_other_account:
  assumes "a \<noteq> b"
  shows "fst (requireAuth (cacheUserSession r t (JNum a) sd) now (Some \<lparr>userId = JNum b, sessionId = sid\<rparr>))
       = fst (requireAuth r now (Some \<lparr>userId = JNum b, sessionId = sid\<rparr>))"
proof -
  from assms have "sessionKey (JNum b) \<noteq> sessionKey (JNum a)"
    using sessionKey_num_inj by blast
  then have "fst (redis_get (cacheUserSession r t (JNum a) sd) now (sessionKey (JNum b)))
           = fst (redis_get r now (sessionKey (JNum b)))"
    by (simp add: cacheUserSession_other_key)
  then show ?thesis
    by (simp only: requireAuth_fst verifySession_fst http_session.simps)
qed

subsection \<open>The claims about the guard\<close>

definition empty_redis :: redis where
  "empty_redis = \<lparr>reachable = True, store = Map.empty, sent = []\<rparr>"

text \<open>
  Claim C9, as amended. A request whose session holds no account id or no session token
  (the value is \<open>undefined\<close>, or any other falsy value) is answered 401 \<open>AUTH_REQUIRED\<close>. A
  request that has no session object at all is answered 500 \<open>AUTH_ERROR\<close>: reading
  \<open>req.session.userId\<close> throws, and the handler's \<open>catch\<close> answers. In both cases the
  Redis client is returned as it was, with no command sent.
\<close>

theorem requireAuth_missing_credentials:
  assumes "case session of None \<Rightarrow> True
           | Some s \<Rightarrow> \<not> truthy (userId s) \<or> \<not> truthy (sessionId s)"
  shows "requireAuth r now session =
           (case session of None \<Rightarrow> Denied 500 AUTH_ERROR | Some s \<Rightarrow> Denied 401 AUTH_REQUIRED,
            session, r)"
  using assms by (auto simp: requireAuth_def split: option.splits)

theorem requireAuth_missing_credentials_witness:
  "requireAuth empty_redis 0 (Some \<lparr>userId = JUndefined, sessionId = JStr (js ''t'')\<rparr>)
     = (Denied 401 AUTH_REQUIRED, Some \<lparr>userId = JUndefined, sessionId = JStr (js ''t'')\<rparr>,
        empty_redis)
   \<and> requireAuth empty_redis 0 (Some \<lparr>userId = JNum 7, sessionId = JStr (js '''')\<rparr>)
     = (Denied 401 AUTH_REQUIRED, Some \<lparr>userId = JNum 7, sessionId = JStr (js '''')\<rparr>,
        empty_redis)
   \<and> requireAuth empty_redis 0 None = (Denied 500 AUTH_ERROR, None, empty_redis)"
  using requireAuth_missing_credentials
      [of "Some \<lparr>userId = JUndefined, sessionId = JStr (js ''t'')\<rparr>" empty_redis 0]
    requireAuth_missing_credentials
      [of "Some \<lparr>userId = JNum 7, sessionId = JStr (js '''')\<rparr>" empty_redis 0]
    requireAuth_missing_credentials [of None empty_redis 0]
  by (simp add: js_def)

text \<open>
  The claim as stated (every request without an account id or a session token is answered
  \<open>AUTH_REQUIRED\<close>) fails for a request without a session object.
\<close>

theorem no_session_counterexample:
  "fst (requireAuth empty_redis 0 None) = Denied 500 AUTH_ERROR"
  by (simp add: requireAuth_def)

text \<open>
  Claim C1, as amended. When the Redis server does not answer, \<open>verifySession\<close> catches
  the error and returns \<open>true\<close>: a request that carries an account id and a session token
  is allowed, with the claimed account id attached. The claim as stated (the guard
  answers \<open>AUTH_ERROR\<close>, never allows) fails for a request with account id 7 and an
  unreachable server.
\<close>

theorem requireAuth_store_unreachable:
  assumes "\<not> reachable r" and "truthy (userId s)" and "truthy (sessionId s)"
  shows "requireAuth r now (Some s) =
           (Allowed (userId s) (sessionId s), Some s,
            r\<lparr>sent := sent r @ [GET (sessionKey (userId s))]\<rparr>)"
  using assms by (simp add: requireAuth_def verifySession_def redis_get_def)

theorem requireAuth_store_unreachable_witness:
  "requireAuth (empty_redis\<lparr>reachable := False\<rparr>) 0
       (Some \<lparr>userId = JNum 7, sessionId = JStr (js ''t'')\<rparr>)
     = (Allowed (JNum 7) (JStr (js ''t'')),
        Some \<lparr>userId = JNum 7, sessionId = JStr (js ''t'')\<rparr>,
        empty_redis\<lparr>reachable := False, sent := [GET (sessionKey (JNum 7))]\<rparr>)"
  using requireAuth_store_unreachable
    [of "empty_redis\<lparr>reachable := False\<rparr>" "\<lparr>userId = JNum 7, sessionId = JStr (js ''t'')\<rparr>" 0]
  by (simp add: empty_redis_def js_def)

theorem store_outage_counterexample:
  "fst (requireAuth \<lparr>reachable = False, store = Map.empty, sent = []\<rparr> 0
          (Some \<lparr>userId = JNum 7, sessionId = JStr (js ''t'')\<rparr>))
     = Allowed (JNum 7) (JStr (js ''t''))"
  by (simp add: requireAuth_def verifySession_def redis_get_def js_def)

text \<open>
  Claim C4, as amended. When the check of an existing, unexpired session record fails
  because the presented token differs, the guard answers 401 \<open>SESSION_INVALID\<close> and
  destroys the request's own HTTP session, but it sends no \<open>DEL\<close>: the store is
  unchanged, the only command sent is the \<open>GET\<close>, and a later \<open>GET\<close> of the same key
  returns the record.
\<close>

theorem requireAuth_keeps_record:
  assumes "reachable r" and "truthy uid" and "truthy sid"
    and "store r (sessionKey uid) = Some (JsonObj d, expires)" and "now < expires"
    and "session_id d \<noteq> sid"
  shows "\<exists>r'. requireAuth r now (Some \<lparr>userId = uid, sessionId = sid\<rparr>)
                 = (Denied 401 SESSION_INVALID, None, r')
            \<and> store r' = store r \<and> sent r' = sent r @ [GET (sessionKey uid)]
            \<and> fst (redis_get r' now (sessionKey uid)) = Inr (Some (JsonObj d))"
  using assms by (simp add: requireAuth_def verifySession_def redis_get_def)

definition session7 :: redis where
  "session7 = cacheUserSession empty_redis 0 (JNum 7)
                \<lparr>session_id = JStr (js ''good''), auth_key = JNull\<rparr>"

theorem requireAuth_keeps_record_witness:
  "\<exists>r'. requireAuth session7 10 (Some \<lparr>userId = JNum 7, sessionId = JStr (js ''bad'')\<rparr>)
            = (Denied 401 SESSION_INVALID, None, r')
        \<and> store r' = store session7 \<and> sent r' = sent session7 @ [GET (sessionKey (JNum 7))]
        \<and> fst (redis_get r' 10 (sessionKey (JNum 7)))
            = Inr (Some (JsonObj \<lparr>session_id = JStr (js ''good''), auth_key = JNull\<rparr>))"
  using requireAuth_keeps_record [of session7 "JNum 7" "JStr (js ''bad'')"
      "\<lparr>session_id = JStr (js ''good''), auth_key = JNull\<rparr>" 86400 10]
  by (simp add: session7_def empty_redis_def cacheUserSession_def redis_setEx_def js_def)

text \<open>
  The claim as stated fails here: a session is cached for account 7, the guard rejects a
  request that presents another token, and a direct \<open>GET\<close> afterwards is not a miss.
\<close>

theorem defensive_invalidation_counterexample:
  "(case requireAuth session7 10 (Some \<lparr>userId = JNum 7, sessionId = JStr (js ''bad'')\<rparr>) of
      (d, s, r') \<Rightarrow> d = Denied 401 SESSION_INVALID
         \<and> fst (redis_get r' 11 (sessionKey (JNum 7)))
              = Inr (Some (JsonObj \<lparr>session_id = JStr (js ''good''), auth_key = JNull\<rparr>)))"
  by (simp add: session7_def empty_redis_def cacheUserSession_def redis_setEx_def
      requireAuth_def verifySession_def redis_get_def js_def)

text \<open>
  Claim C7, as amended. Let a session with token \<open>sid\<close> be cached for account \<open>a\<close>, and
  let \<open>b\<close> be another account. If the Redis server answers, and \<open>b\<close> has no record or a
  record that parses and holds another token, the guard denies the pair (\<open>b\<close>, \<open>sid\<close>):
  with 401 \<open>SESSION_INVALID\<close>, or with 401 \<open>AUTH_REQUIRED\<close> when the id or the token is
  falsy. The record is looked up by the account id alone and the token is compared
  afterwards. Without the condition on the store the claim fails: when the server does
  not answer, the pair is allowed.
\<close>

theorem session_isolation:
  assumes "a \<noteq> b" and "reachable r"
    and "store r (sessionKey (JNum b)) = None
       \<or> (\<exists>d expires. store r (sessionKey (JNum b)) = Some (JsonObj d, expires)
              \<and> session_id d \<noteq> sid)"
  shows "fst (requireAuth (cacheUserSession r t (JNum a) \<lparr>session_id = sid, auth_key = k\<rparr>) now
                (Some \<lparr>userId = JNum b, sessionId = sid\<rparr>))
         = Denied 401 (if b = 0 \<or> \<not> truthy sid then AUTH_REQUIRED else SESSION_INVALID)"
proof -
  have "fst (requireAuth r now (Some \<lparr>userId = JNum b, sessionId = sid\<rparr>))
          = Denied 401 (if b = 0 \<or> \<not> truthy sid then AUTH_REQUIRED else SESSION_INVALID)"
    using assms(2,3) by (auto simp: requireAuth_fst verifySession_fst redis_get_def split: if_splits)
  with requireAuth_other_account [OF assms(1)] show ?thesis
    by simp
qed

theorem session_isolation_witness:
  "fst (requireAuth
          (cacheUserSession empty_redis 0 (JNum 1) \<lparr>session_id = JStr (js ''T''), auth_key = JNull\<rparr>)
          5 (Some \<lparr>userId = JNum 2, sessionId = JStr (js ''T'')\<rparr>))
     = Denied 401 SESSION_INVALID"
  using session_isolation [of 1 2 empty_redis "JStr (js ''T'')" 0 JNull 5]
  by (simp add: empty_redis_def js_def)

theorem session_isolation_counterexample:
  "fst (requireAuth
          ((cacheUserSession empty_redis 0 (JNum 1) \<lparr>session_id = JStr (js ''T''), auth_key = JNull\<rparr>)
             \<lparr>reachable := False\<rparr>)
          5 (Some \<lparr>userId = JNum 2, sessionId = JStr (js ''T'')\<rparr>))
     = Allowed (JNum 2) (JStr (js ''T''))"
  by (simp add: requireAuth_fst verifySession_fst redis_get_def js_def)

section \<open>The field cipher (cryptoMethods.aesIGE)\<close>

type_synonym byte = "8 word"

subsection \<open>Hex text\<close>

definition hex_digit :: "nat \<Rightarrow> 16 word" where
  "hex_digit n = (if n < 10 then of_nat (48 + n) else of_nat (87 + n))"

definition hex_byte :: "byte \<Rightarrow> jsstring" where
  "hex_byte b = [hex_digit (unat b div 16), hex_digit (unat b mod 16)]"

definition hex_encode :: "byte list \<Rightarrow> jsstring" where
  "hex_encode bs = concat (map hex_byte bs)"

definition hex_val :: "16 word \<Rightarrow> nat option" where
  "hex_val c =
     (let n = unat c in
      if 48 \<le> n \<and> n \<le> 57 then Some (n - 48)
      else if 97 \<le> n \<and> n \<le> 102 then Some (n - 87)
      else if 65 \<le> n \<and> n \<le> 70 then Some (n - 55)
      else None)"

fun hex_decode :: "jsstring \<Rightarrow> byte list" where
  "hex_decode (a # b # rest) =
     (case (hex_val a, hex_val b) of
        (Some x, Some y) \<Rightarrow> of_nat (16 * x + y) # hex_decode rest
      | _ \<Rightarrow> [])"
| "hex_decode _ = []"

subsection \<open>UTF-8\<close>

definition high_surrogate :: "16 word \<Rightarrow> bool" where
  "high_surrogate u = (0xD800 \<le> unat u \<and> unat u \<le> 0xDBFF)"

definition low_surrogate :: "16 word \<Rightarrow> bool" where
  "low_surrogate u = (0xDC00 \<le> unat u \<and> unat u \<le> 0xDFFF)"

fun code_points :: "jsstring \<Rightarrow> nat list" where
  "code_points [] = []"
| "code_points [u] = [if high_surrogate u \<or> low_surrogate u then 0xFFFD else unat u]"
| "code_points (u # v # rest) =
     (if high_surrogate u \<and> low_surrogate v
      then (0x10000 + (unat u - 0xD800) * 0x400 + (unat v - 0xDC00)) # code_points rest
      else (if high_surrogate u \<or> low_surrogate u then 0xFFFD else unat u) # code_points (v # rest))"

definition utf8_bytes :: "nat \<Rightarrow> byte list" where
  "utf8_bytes c =
     (if c < 0x80 then [of_nat c]
      else if c < 0x800 then [of_nat (0xC0 + c div 64), of_nat (0x80 + c mod 64)]
      else if c < 0x10000 then
        [of_nat (0xE0 + c div 4096), of_nat (0x80 + c div 64 mod 64), of_nat (0x80 + c mod 64)]
      else
        [of_nat (0xF0 + c div 262144), of_nat (0x80 + c div 4096 mod 64),
         of_nat (0x80 + c div 64 mod 64), of_nat (0x80 + c mod 64)])"

definition utf8_encode :: "jsstring \<Rightarrow> byte list" where
  "utf8_encode s = concat (map utf8_bytes (code_points s))"

definition units :: "nat \<Rightarrow> jsstring" where
  "units c =
     (if c < 0x10000 then [of_nat c]
      else [of_nat (0xD800 + (c - 0x10000) div 0x400), of_nat (0xDC00 + (c - 0x10000) mod 0x400)])"

definition cont :: "byte \<Rightarrow> bool" where
  "cont b = (0x80 \<le> unat b \<and> unat b \<le> 0xBF)"

text \<open>The bounds of the second byte, given the lead byte.\<close>

definition second_ok :: "byte \<Rightarrow> byte \<Rightarrow> bool" where
  "second_ok b0 b1 =
     (let l = unat b0; n = unat b1 in
      if l = 0xE0 then 0xA0 \<le> n \<and> n \<le> 0xBF
      else if l = 0xED then 0x80 \<le> n \<and> n \<le> 0x9F
      else if l = 0xF0 then 0x90 \<le> n \<and> n \<le> 0xBF
      else if l = 0xF4 then 0x80 \<le> n \<and> n \<le> 0x8F
      else 0x80 \<le> n \<and> n \<le> 0xBF)"

fun utf8_decode :: "byte list \<Rightarrow> jsstring" where
  "utf8_decode [] = []"
| "utf8_decode (b0 # rest) =
     (let l = unat b0 in
      if l < 0x80 then of_nat l # utf8_decode rest
      else if 0xC2 \<le> l \<and> l \<le> 0xDF then
        (case rest of
           b1 # r1 \<Rightarrow>
             if cont b1 then of_nat ((l - 0xC0) * 64 + (unat b1 - 0x80)) # utf8_decode r1
             else 0xFFFD # utf8_decode rest
         | [] \<Rightarrow> [0xFFFD])
      else if 0xE0 \<le> l \<and> l \<le> 0xEF then
        (case rest of
           b1 # r1 \<Rightarrow>
             if second_ok b0 b1 then
               (case r1 of
                  b2 # r2 \<Rightarrow>
                    if cont b2
                    then of_nat ((l - 0xE0) * 4096 + (unat b1 - 0x80) * 64 + (unat b2 - 0x80))
                           # utf8_decode r2
                    else 0xFFFD # utf8_decode r1
                | [] \<Rightarrow> [0xFFFD])
             else 0xFFFD # utf8_decode rest
         | [] \<Rightarrow> [0xFFFD])
      else if 0xF0 \<le> l \<and> l \<le> 0xF4 then
        (case rest of
           b1 # r1 \<Rightarrow>
             if second_ok b0 b1 then
               (case r1 of
                  b2 # r2 \<Rightarrow>
                    if cont b2 then
                      (case r2 of
                         b3 # r3 \<Rightarrow>
                           if cont b3
                           then units ((l - 0xF0) * 262144 + (unat b1 - 0x80) * 4096
                                         + (unat b2 - 0x80) * 64 + (unat b3 - 0x80))
                                  @ utf8_decode r3
                           else 0xFFFD # utf8_decode r2
                       | [] \<Rightarrow> [0xFFFD])
                    else 0xFFFD # utf8_decode r1
                | [] \<Rightarrow> [0xFFFD])
             else 0xFFFD # utf8_decode rest
         | [] \<Rightarrow> [0xFFFD])
      else 0xFFFD # utf8_decode rest)"

subsection \<open>AES-256-CBC with PKCS#7 padding\<close>

text \<open>
  \<open>crypto.createCipheriv('aes-256-cbc', key, iv)\<close> is the runtime's: the AES block
  transformation is a parameter of the model (\<open>E key block\<close> enciphers a 16-byte block
  under a 32-byte key, \<open>D key block\<close> deciphers it); the chaining, the padding, the
  length checks and the text encodings around it are written out.
\<close>

type_synonym block_fun = "byte list \<Rightarrow> byte list \<Rightarrow> byte list"

definition block_cipher :: "block_fun \<Rightarrow> block_fun \<Rightarrow> bool" where
  "block_cipher E D =
     (\<forall>k b. length k = 32 \<and> length b = 16 \<longrightarrow> length (E k b) = 16 \<and> D k (E k b) = b)"

definition xor_bytes :: "byte list \<Rightarrow> byte list \<Rightarrow> byte list" where
  "xor_bytes xs ys = map2 (XOR) xs ys"

definition pad :: "byte list \<Rightarrow> byte list" where
  "pad bs = (let n = 16 - length bs mod 16 in bs @ replicate n (of_nat n))"

function cbc_encrypt :: "block_fun \<Rightarrow> byte list \<Rightarrow> byte list \<Rightarrow> byte list \<Rightarrow> byte list" where
  "cbc_encrypt E k prev bs =
     (if bs = [] then []
      else (let c = E k (xor_bytes prev (take 16 bs))
            in c @ cbc_encrypt E k c (drop 16 bs)))"
  by pat_completeness auto
termination
  by (relation "measure (\<lambda>(E, k, prev, bs). length bs)") auto

function cbc_decrypt :: "block_fun \<Rightarrow> byte list \<Rightarrow> byte list \<Rightarrow> byte list \<Rightarrow> byte list" where
  "cbc_decrypt D k prev cs =
     (if cs = [] then []
      else (let c = take 16 cs
            in xor_bytes prev (D k c) @ cbc_decrypt D k c (drop 16 cs)))"
  by pat_completeness auto
termination
  by (relation "measure (\<lambda>(D, k, prev, cs). length cs)") auto

declare cbc_encrypt.simps [simp del] cbc_decrypt.simps [simp del]

datatype crypto_error =
    InvalidIV | InvalidKeyLength | InvalidHexLength | WrongFinalBlockLength | BadDecrypt

text \<open>Removing the padding in \<open>decipher.final\<close>: the last byte counts the padding bytes.\<close>

definition unpad :: "byte list \<Rightarrow> crypto_error + byte list" where
  "unpad bs =
     (if bs = [] then Inl WrongFinalBlockLength
      else (let n = unat (last bs) in
            if n = 0 \<or> 16 < n \<or> length bs < n then Inl BadDecrypt
            else if drop (length bs - n) bs = replicate n (last bs)
                 then Inr (take (length bs - n) bs)
                 else Inl BadDecrypt))"

text \<open>
  The key argument: a Buffer is used as it is; of anything else, the first 64 characters
  of its text are read as hex.
\<close>

datatype key_arg = KeyBuffer "byte list" | KeyText jsstring

fun keyBuffer :: "key_arg \<Rightarrow> byte list" where
  "keyBuffer (KeyBuffer b) = b"
| "keyBuffer (KeyText s) = hex_decode (take 64 s)"

definition colon :: "16 word" where
  "colon = 58"

definition aes_encrypt :: "block_fun \<Rightarrow> byte list \<Rightarrow> jsstring \<Rightarrow> key_arg \<Rightarrow> crypto_error + jsstring" where
  "aes_encrypt E iv data key =
     (let kb = keyBuffer key in
      if length iv \<noteq> 16 then Inl InvalidIV
      else if length kb \<noteq> 32 then Inl InvalidKeyLength
      else (let encrypted = hex_encode (cbc_encrypt E kb iv (pad (utf8_encode data)))
            in Inr (hex_encode iv @ [colon] @ encrypted)))"

definition aes_decrypt :: "block_fun \<Rightarrow> jsstring \<Rightarrow> key_arg \<Rightarrow> crypto_error + jsstring" where
  "aes_decrypt D encryptedData key =
     (let ivText = takeWhile (\<lambda>c. c \<noteq> colon) encryptedData;
          iv = hex_decode ivText;
          encryptedText = drop (length ivText + 1) encryptedData;
          kb = keyBuffer key
      in if length iv \<noteq> 16 then Inl InvalidIV
         else if length kb \<noteq> 32 then Inl InvalidKeyLength
         else if odd (length encryptedText) then Inl InvalidHexLength
         else (let cs = hex_decode encryptedText in
               if length cs mod 16 \<noteq> 0 then Inl WrongFinalBlockLength
               else (case unpad (cbc_decrypt D kb iv cs) of
                       Inl e \<Rightarrow> Inl e
                     | Inr bs \<Rightarrow> Inr (utf8_decode bs))))"

text \<open>
  A string is well formed when every surrogate code unit is half of a pair
  (\<open>String.prototype.isWellFormed\<close>); a scalar value is a code point that is not a
  surrogate.
\<close>

fun well_formed :: "jsstring \<Rightarrow> bool" where
  "well_formed [] = True"
| "well_formed [u] = (\<not> high_surrogate u \<and> \<not> low_surrogate u)"
| "well_formed (u # v # rest) =
     (if high_surrogate u then low_surrogate v \<and> well_formed rest
      else \<not> low_surrogate u \<and> well_formed (v # rest))"

definition scalar :: "nat \<Rightarrow> bool" where
  "scalar c = (c < 0x110000 \<and> \<not> (0xD800 \<le> c \<and> c \<le> 0xDFFF))"

text \<open>
  A stand-in for the block transformation, for the examples: XOR with the first half of
  the key. It has the one property of AES that the model uses.
\<close>

definition xor_block :: block_fun where
  "xor_block k b = xor_bytes (take 16 k) b"

definition sample_key :: "byte list" where
  "sample_key = map of_nat [0..<32]"

definition sample_iv :: "byte list" where
  "sample_iv = map of_nat [100..<116]"

definition other_iv :: "byte list" where
  "other_iv = map of_nat [200..<216]"

text \<open>Five replacement characters and the letter \<open>a\<close>: a text of 16 bytes.\<close>

definition replacement_text :: jsstring where
  "replacement_text = [0xFFFD, 0xFFFD, 0xFFFD, 0xFFFD, 0xFFFD, 0x61]"

subsection \<open>Hex text is read back as written\<close>

lemma unat_hex_digit: "n < 16 \<Longrightarrow> unat (hex_digit n) = (if n < 10 then 48 + n else 87 + n)"
  by (simp add: hex_digit_def unat_of_nat del: of_nat_add)

lemma hex_val_digit: "n < 16 \<Longrightarrow> hex_val (hex_digit n) = Some n"
  by (simp add: hex_val_def unat_hex_digit)

lemma hex_digit_not_colon: "n < 16 \<Longrightarrow> hex_digit n \<noteq> colon"
proof
  assume "n < 16" "hex_digit n = colon"
  then have "unat colon = (if n < 10 then 48 + n else 87 + n)"
    using unat_hex_digit [of n] by simp
  then show False using \<open>n < 16\<close> by (simp add: colon_def split: if_splits)
qed

lemma unat_byte_div: "unat (b :: byte) div 16 < 16"
proof -
  have "unat b < 256" using unsigned_less [of b, where 'a=nat] by simp
  then show ?thesis by simp
qed

lemma hex_decode_byte: "hex_decode (hex_byte b @ s) = b # hex_decode s"
proof -
  have "(of_nat (16 * (unat b div 16) + unat b mod 16) :: byte) = b"
    by (simp only: mult_div_mod_eq) simp
  then show ?thesis
    by (simp add: hex_byte_def hex_val_digit unat_byte_div)
qed

lemma hex_decode_encode_append: "hex_decode (hex_encode bs @ s) = bs @ hex_decode s"
  by (induction bs) (simp_all add: hex_encode_def hex_decode_byte)

lemma hex_decode_encode: "hex_decode (hex_encode bs) = bs"
  using hex_decode_encode_append [of bs "[]"] by simp

lemma hex_encode_inj: "hex_encode a = hex_encode b \<Longrightarrow> a = b"
  by (metis hex_decode_encode)

lemma length_hex_encode: "length (hex_encode bs) = 2 * length bs"
  by (induction bs) (simp_all add: hex_encode_def hex_byte_def)

lemma colon_not_hex_byte: "colon \<notin> set (hex_byte b)"
  using hex_digit_not_colon [of "unat b div 16"] hex_digit_not_colon [of "unat b mod 16"]
  by (auto simp: hex_byte_def unat_byte_div)

lemma colon_not_in_hex: "x \<in> set (hex_encode bs) \<Longrightarrow> x \<noteq> colon"
  using colon_not_hex_byte by (auto simp: hex_encode_def)

lemma takeWhile_hex: "takeWhile (\<lambda>c. c \<noteq> colon) (hex_encode bs @ colon # s) = hex_encode bs"
  using colon_not_in_hex [of _ bs] by (simp add: takeWhile_tail)

subsection \<open>Padding and chaining\<close>

lemma length_pad: "length (pad bs) mod 16 = 0"
proof -
  have "(length bs + (16 - length bs mod 16)) mod 16 = 0"
    by presburger
  then show ?thesis by (simp add: pad_def Let_def)
qed

lemma pad_nonempty: "pad bs \<noteq> []"
  by (simp add: pad_def Let_def)

lemma unpad_pad: "unpad (pad bs) = Inr bs"
proof -
  define n where "n = 16 - length bs mod 16"
  have n: "0 < n" "n \<le> 16" by (simp_all add: n_def)
  have p: "pad bs = bs @ replicate n (of_nat n)"
    by (simp add: pad_def n_def Let_def)
  have u: "unat (of_nat n :: byte) = n"
    using n by (simp add: unat_of_nat)
  have l: "last (pad bs) = of_nat n"
    using n by (simp add: p)
  show ?thesis
    unfolding unpad_def l u Let_def using n by (simp add: p)
qed

lemma length_xor_bytes: "length (xor_bytes a b) = min (length a) (length b)"
  by (simp add: xor_bytes_def)

lemma xor_bytes_cancel: "length a = length b \<Longrightarrow> xor_bytes a (xor_bytes a b) = b"
  unfolding xor_bytes_def
  by (induction a b rule: list_induct2) simp_all

lemma cbc_encrypt_Nil: "cbc_encrypt E k prev [] = []"
  by (simp add: cbc_encrypt.simps)

lemma cbc_decrypt_Nil: "cbc_decrypt D k prev [] = []"
  by (simp add: cbc_decrypt.simps)

lemma cbc_roundtrip:
  "block_cipher E D \<Longrightarrow> length k = 32 \<Longrightarrow> length prev = 16 \<Longrightarrow> length bs mod 16 = 0
     \<Longrightarrow> cbc_decrypt D k prev (cbc_encrypt E k prev bs) = bs
         \<and> length (cbc_encrypt E k prev bs) = length bs"
proof (induction E k prev bs rule: cbc_encrypt.induct)
  case (1 E k prev bs)
  show ?case
  proof (cases "bs = []")
    case True
    then show ?thesis
      by (simp add: cbc_encrypt_Nil cbc_decrypt_Nil)
  next
    case False
    then have "0 < length bs" by simp
    with "1.prems"(4) have len: "16 \<le> length bs"
      by presburger
    define b where "b = take 16 bs"
    define c where "c = E k (xor_bytes prev b)"
    have lb: "length b = 16" using len by (simp add: b_def)
    have lx: "length (xor_bytes prev b) = 16"
      using lb "1.prems"(3) by (simp add: length_xor_bytes)
    have bc: "length (E k x) = 16 \<and> D k (E k x) = x" if "length x = 16" for x
      using "1.prems"(1,2) that unfolding block_cipher_def by simp
    from bc [OF lx] have lc: "length c = 16" and dc: "D k c = xor_bytes prev b"
      unfolding c_def by simp_all
    have "(length bs - 16) mod 16 = 0"
      using "1.prems"(4) len by presburger
    then have rest: "length (drop 16 bs) mod 16 = 0"
      by simp
    have enc: "cbc_encrypt E k prev bs = c @ cbc_encrypt E k c (drop 16 bs)"
      using False by (simp add: cbc_encrypt.simps [of E k prev bs] c_def b_def Let_def)
    have ih: "cbc_decrypt D k c (cbc_encrypt E k c (drop 16 bs)) = drop 16 bs
              \<and> length (cbc_encrypt E k c (drop 16 bs)) = length (drop 16 bs)"
      using "1.IH" [OF False refl "1.prems"(1,2) lc [unfolded c_def b_def] rest]
      unfolding c_def b_def .
    have "cbc_decrypt D k prev (c @ cbc_encrypt E k c (drop 16 bs))
            = xor_bytes prev (D k c) @ cbc_decrypt D k c (cbc_encrypt E k c (drop 16 bs))"
      using lc by (subst cbc_decrypt.simps) (auto simp: Let_def)
    also have "\<dots> = b @ drop 16 bs"
      using ih dc lb "1.prems"(3) by (simp add: xor_bytes_cancel)
    also have "\<dots> = bs" by (simp add: b_def)
    finally have "cbc_decrypt D k prev (cbc_encrypt E k prev bs) = bs"
      unfolding enc .
    moreover have "length (cbc_encrypt E k prev bs) = length bs"
      unfolding enc using ih lc len by simp
    ultimately show ?thesis by blast
  qed
qed

subsection \<open>UTF-8 is read back as written\<close>

lemma unat_byte: "x < 256 \<Longrightarrow> unat (of_nat x :: byte) = x"
  by (simp add: unat_of_nat)

lemma decode1:
  assumes "c < 0x80"
  shows "utf8_decode (utf8_bytes c @ bs) = units c @ utf8_decode bs"
proof -
  have "unat (of_nat c :: byte) = c" using assms by (simp add: unat_byte)
  then show ?thesis using assms by (simp add: utf8_bytes_def units_def)
qed

lemma decode2:
  assumes "0x80 \<le> c" "c < 0x800"
  shows "utf8_decode (utf8_bytes c @ bs) = units c @ utf8_decode bs"
proof -
  define b0 :: byte where "b0 = of_nat (0xC0 + c div 64)"
  define b1 :: byte where "b1 = of_nat (0x80 + c mod 64)"
  have d: "2 \<le> c div 64" "c div 64 < 32" using assms by simp_all
  have u0: "unat b0 = 0xC0 + c div 64" unfolding b0_def using d by (intro unat_byte) simp
  have u1: "unat b1 = 0x80 + c mod 64" unfolding b1_def by (intro unat_byte) simp
  have enc: "utf8_bytes c = [b0, b1]"
    using assms by (simp add: utf8_bytes_def b0_def b1_def)
  have c: "cont b1" by (simp add: cont_def u1)
  have v: "(unat b0 - 0xC0) * 64 + (unat b1 - 0x80) = c"
    by (simp add: u0 u1)
  have r: "0xC2 \<le> unat b0" "unat b0 \<le> 0xDF" "\<not> unat b0 < 0x80" using d by (simp_all add: u0)
  have "utf8_decode (b0 # b1 # bs) = of_nat c # utf8_decode bs"
    using c r by (simp add: Let_def v)
  then show ?thesis using assms by (simp add: enc units_def)
qed

lemma split3: "(c::nat) = 4096 * (c div 4096) + 64 * (c div 64 mod 64) + c mod 64"
proof -
  have "c div 64 div 64 = c div (64 * 64)" by (rule div_mult2_eq [symmetric])
  then have a: "c div 64 div 64 = c div 4096" by simp
  have b: "c div 64 = 64 * (c div 64 div 64) + c div 64 mod 64" by simp
  have "c = 64 * (c div 64) + c mod 64" by simp
  with a b show ?thesis by linarith
qed

lemma split4:
  "(c::nat) = 262144 * (c div 262144) + 4096 * (c div 4096 mod 64) + 64 * (c div 64 mod 64) + c mod 64"
proof -
  have "c div 4096 div 64 = c div (4096 * 64)" by (rule div_mult2_eq [symmetric])
  then have a: "c div 4096 div 64 = c div 262144" by simp
  have b: "c div 4096 = 64 * (c div 4096 div 64) + c div 4096 mod 64" by simp
  with a split3 [of c] show ?thesis by linarith
qed

lemma second_lo3: "2048 \<le> (c::nat) \<Longrightarrow> c div 4096 = 0 \<Longrightarrow> 32 \<le> c div 64 mod 64"
  using split3 [of c] mod_less_divisor [of 64 c] by linarith

lemma second_hi3: "(c::nat) < 55296 \<Longrightarrow> c div 4096 = 13 \<Longrightarrow> c div 64 mod 64 \<le> 31"
  using split3 [of c] by linarith

lemma second_lo4: "65536 \<le> (c::nat) \<Longrightarrow> c div 262144 = 0 \<Longrightarrow> 16 \<le> c div 4096 mod 64"
  using split4 [of c] mod_less_divisor [of 64 c] mod_less_divisor [of 64 "c div 64"] by linarith

lemma second_hi4: "(c::nat) < 1114112 \<Longrightarrow> c div 262144 = 4 \<Longrightarrow> c div 4096 mod 64 \<le> 15"
  using split4 [of c] by linarith

lemma decode3:
  assumes "0x800 \<le> c" "c < 0x10000" "\<not> (0xD800 \<le> c \<and> c \<le> 0xDFFF)"
  shows "utf8_decode (utf8_bytes c @ bs) = units c @ utf8_decode bs"
proof -
  define b0 :: byte where "b0 = of_nat (0xE0 + c div 4096)"
  define b1 :: byte where "b1 = of_nat (0x80 + c div 64 mod 64)"
  define b2 :: byte where "b2 = of_nat (0x80 + c mod 64)"
  have d: "c div 4096 < 16" using assms by simp
  have u0: "unat b0 = 0xE0 + c div 4096" unfolding b0_def using d by (intro unat_byte) simp
  have u1: "unat b1 = 0x80 + c div 64 mod 64" unfolding b1_def by (intro unat_byte) simp
  have u2: "unat b2 = 0x80 + c mod 64" unfolding b2_def by (intro unat_byte) simp
  have enc: "utf8_bytes c = [b0, b1, b2]"
    using assms by (simp add: utf8_bytes_def b0_def b1_def b2_def)
  have c2: "cont b2" by (simp add: cont_def u2)
  have lo: "c div 4096 = 0 \<Longrightarrow> 32 \<le> c div 64 mod 64"
    using assms(1) by (simp add: second_lo3)
  have "c div 4096 = 13 \<Longrightarrow> c < 55296"
    using assms(2,3) split3 [of c] by linarith
  then have hi: "c div 4096 = 13 \<Longrightarrow> c div 64 mod 64 \<le> 31"
    by (simp add: second_hi3)
  have s1: "second_ok b0 b1"
    using lo hi d by (auto simp: second_ok_def Let_def u0 u1)
  have v: "(unat b0 - 0xE0) * 4096 + (unat b1 - 0x80) * 64 + (unat b2 - 0x80) = c"
    unfolding u0 u1 u2 using split3 [of c] by simp
  have r: "0xE0 \<le> unat b0" "unat b0 \<le> 0xEF" "\<not> unat b0 < 0x80"
    "\<not> (0xC2 \<le> unat b0 \<and> unat b0 \<le> 0xDF)"
    using d by (simp_all add: u0)
  have "utf8_decode (b0 # b1 # b2 # bs) = of_nat c # utf8_decode bs"
    using c2 s1 r by (simp add: Let_def v)
  then show ?thesis using assms by (simp add: enc units_def)
qed

lemma decode4:
  assumes "0x10000 \<le> c" "c < 0x110000"
  shows "utf8_decode (utf8_bytes c @ bs) = units c @ utf8_decode bs"
proof -
  define b0 :: byte where "b0 = of_nat (0xF0 + c div 262144)"
  define b1 :: byte where "b1 = of_nat (0x80 + c div 4096 mod 64)"
  define b2 :: byte where "b2 = of_nat (0x80 + c div 64 mod 64)"
  define b3 :: byte where "b3 = of_nat (0x80 + c mod 64)"
  have d: "c div 262144 \<le> 4" using assms by simp
  have u0: "unat b0 = 0xF0 + c div 262144" unfolding b0_def using d by (intro unat_byte) simp
  have u1: "unat b1 = 0x80 + c div 4096 mod 64" unfolding b1_def by (intro unat_byte) simp
  have u2: "unat b2 = 0x80 + c div 64 mod 64" unfolding b2_def by (intro unat_byte) simp
  have u3: "unat b3 = 0x80 + c mod 64" unfolding b3_def by (intro unat_byte) simp
  have enc: "utf8_bytes c = [b0, b1, b2, b3]"
    using assms by (simp add: utf8_bytes_def b0_def b1_def b2_def b3_def)
  have c2: "cont b2" by (simp add: cont_def u2)
  have c3: "cont b3" by (simp add: cont_def u3)
  have lo: "c div 262144 = 0 \<Longrightarrow> 16 \<le> c div 4096 mod 64"
    using assms(1) by (simp add: second_lo4)
  have hi: "c div 262144 = 4 \<Longrightarrow> c div 4096 mod 64 \<le> 15"
    using assms(2) by (simp add: second_hi4)
  have s1: "second_ok b0 b1"
    using lo hi d by (auto simp: second_ok_def Let_def u0 u1)
  have v: "(unat b0 - 0xF0) * 262144 + (unat b1 - 0x80) * 4096 + (unat b2 - 0x80) * 64
             + (unat b3 - 0x80) = c"
    unfolding u0 u1 u2 u3 using split4 [of c] by simp
  have r: "0xF0 \<le> unat b0" "unat b0 \<le> 0xF4" "\<not> unat b0 < 0x80"
    "\<not> (0xC2 \<le> unat b0 \<and> unat b0 \<le> 0xDF)" "\<not> (0xE0 \<le> unat b0 \<and> unat b0 \<le> 0xEF)"
    using d by (simp_all add: u0)
  have "utf8_decode (b0 # b1 # b2 # b3 # bs) = units c @ utf8_decode bs"
    using c2 c3 s1 r by (simp add: Let_def v)
  then show ?thesis by (simp add: enc)
qed

lemma decode_scalar:
  "scalar c \<Longrightarrow> utf8_decode (utf8_bytes c @ bs) = units c @ utf8_decode bs"
  unfolding scalar_def
  using decode1 [of c bs] decode2 [of c bs] decode3 [of c bs] decode4 [of c bs]
  by linarith

lemma unat_unit: "unat (u :: 16 word) < 65536"
  using unsigned_less [of u, where 'a=nat] by simp

lemma pair_value:
  assumes "high_surrogate u" "low_surrogate v"
  shows "scalar (0x10000 + (unat u - 0xD800) * 0x400 + (unat v - 0xDC00))"
    and "units (0x10000 + (unat u - 0xD800) * 0x400 + (unat v - 0xDC00)) = [u, v]"
proof -
  define a where "a = unat u - 0xD800"
  define b where "b = unat v - 0xDC00"
  have a: "a < 0x400" "unat u = 0xD800 + a" using assms(1) by (auto simp: a_def high_surrogate_def)
  have b: "b < 0x400" "unat v = 0xDC00 + b" using assms(2) by (auto simp: b_def low_surrogate_def)
  have "a * 0x400 + b < 0x100000" using a(1) b(1) by linarith
  then show "scalar (0x10000 + (unat u - 0xD800) * 0x400 + (unat v - 0xDC00))"
    by (simp add: scalar_def a_def b_def)
  have "(a * 0x400 + b) div 0x400 = a" "(a * 0x400 + b) mod 0x400 = b"
    using b(1) by simp_all
  then have "units (0x10000 + a * 0x400 + b) = [of_nat (unat u), of_nat (unat v)]"
    by (simp add: units_def a(2) b(2))
  then show "units (0x10000 + (unat u - 0xD800) * 0x400 + (unat v - 0xDC00)) = [u, v]"
    by (simp add: a_def b_def)
qed

lemma single_value:
  shows "scalar (if high_surrogate u \<or> low_surrogate u then 0xFFFD else unat u)"
    and "\<not> high_surrogate u \<Longrightarrow> \<not> low_surrogate u \<Longrightarrow> units (unat u) = [u]"
  using unat_unit [of u]
  by (auto simp: scalar_def high_surrogate_def low_surrogate_def units_def)

lemma scalar_replacement: "scalar 0xFFFD"
  by (simp add: scalar_def)

lemma scalar_unit: "\<not> high_surrogate u \<Longrightarrow> \<not> low_surrogate u \<Longrightarrow> scalar (unat u)"
  using single_value(1) [of u] by simp

lemma code_points_scalar: "c \<in> set (code_points s) \<Longrightarrow> scalar c"
  by (induction s arbitrary: c rule: code_points.induct)
     (auto simp: pair_value(1) scalar_replacement scalar_unit split: if_splits)

lemma decode_concat:
  "(\<And>c. c \<in> set cs \<Longrightarrow> scalar c)
   \<Longrightarrow> utf8_decode (concat (map utf8_bytes cs) @ bs) = concat (map units cs) @ utf8_decode bs"
  by (induction cs) (simp_all add: decode_scalar)

lemma utf8_decode_encode: "utf8_decode (utf8_encode s) = concat (map units (code_points s))"
  using decode_concat [of "code_points s" "[]"] code_points_scalar
  by (simp add: utf8_encode_def)

lemma units_code_points: "well_formed s \<Longrightarrow> concat (map units (code_points s)) = s"
  by (induction s rule: code_points.induct)
     (auto simp: pair_value(2) single_value(2) split: if_splits)

lemma utf8_roundtrip: "well_formed s \<Longrightarrow> utf8_decode (utf8_encode s) = s"
  by (simp add: utf8_decode_encode units_code_points)

subsection \<open>The stand-in block transformation\<close>

lemma block_cipher_xor_block: "block_cipher xor_block xor_block"
  by (simp add: block_cipher_def xor_block_def length_xor_bytes xor_bytes_cancel)

lemma length_sample_key: "length (keyBuffer (KeyBuffer sample_key)) = 32"
  by (simp add: sample_key_def)

lemma length_sample_iv: "length sample_iv = 16"
  by (simp add: sample_iv_def)

lemma length_other_iv: "length other_iv = 16"
  by (simp add: other_iv_def)

lemma well_formed_Alice: "well_formed (js ''Alice'')"
  by (simp add: js_def high_surrogate_def low_surrogate_def)

lemma sample_iv_other_iv: "sample_iv \<noteq> other_iv"
proof
  assume "sample_iv = other_iv"
  then have "hd sample_iv = hd other_iv" by simp
  then show False by (simp add: sample_iv_def other_iv_def upt_conv_Cons)
qed

subsection \<open>Encrypting and decrypting a field\<close>

lemma aes_encrypt_ok:
  assumes "length (keyBuffer key) = 32" "length iv = 16"
  shows "aes_encrypt E iv P key
           = Inr (hex_encode iv @ colon # hex_encode (cbc_encrypt E (keyBuffer key) iv (pad (utf8_encode P))))"
  using assms by (simp add: aes_encrypt_def Let_def)

lemma aes_decrypt_hex:
  assumes "length (keyBuffer key) = 32" "length iv = 16"
  shows "aes_decrypt D (hex_encode iv @ colon # hex_encode cs) key
           = (if length cs mod 16 \<noteq> 0 then Inl WrongFinalBlockLength
              else case unpad (cbc_decrypt D (keyBuffer key) iv cs) of
                     Inl e \<Rightarrow> Inl e | Inr bs \<Rightarrow> Inr (utf8_decode bs))"
proof -
  have "drop (length (hex_encode iv) + 1) (hex_encode iv @ colon # hex_encode cs) = hex_encode cs"
    by simp
  then show ?thesis
    unfolding aes_decrypt_def Let_def takeWhile_hex hex_decode_encode
    using assms by (simp add: length_hex_encode hex_decode_encode)
qed

lemma aes_decrypt_encrypt:
  assumes "block_cipher E D" "length (keyBuffer key) = 32" "length iv = 16"
  shows "\<exists>c. aes_encrypt E iv P key = Inr c
             \<and> aes_decrypt D c key = Inr (utf8_decode (utf8_encode P))"
proof -
  define bs where "bs = pad (utf8_encode P)"
  define cs where "cs = cbc_encrypt E (keyBuffer key) iv bs"
  have rt: "cbc_decrypt D (keyBuffer key) iv cs = bs" "length cs = length bs"
    using cbc_roundtrip [OF assms, of bs] length_pad [of "utf8_encode P"]
    by (simp_all add: cs_def bs_def)
  have "aes_decrypt D (hex_encode iv @ colon # hex_encode cs) key = Inr (utf8_decode (utf8_encode P))"
    using rt length_pad [of "utf8_encode P"]
    by (simp add: aes_decrypt_hex [OF assms(2,3)] bs_def unpad_pad)
  then show ?thesis
    using aes_encrypt_ok [OF assms(2,3), of E P] by (simp add: cs_def bs_def)
qed

lemma aes_lone_surrogate:
  assumes "block_cipher E D" and "length (keyBuffer key) = 32" and "length iv = 16"
  shows "\<exists>c. aes_encrypt E iv [0xD800] key = Inr c \<and> aes_decrypt D c key = Inr [0xFFFD]"
  using aes_decrypt_encrypt [OF assms, of "[0xD800]"]
  by (simp add: utf8_decode_encode high_surrogate_def units_def)

lemma pad_same_length: "length a = length b \<Longrightarrow> pad a = a @ drop (length b) (pad b)"
  by (simp add: pad_def Let_def)

lemma cbc_decrypt_other_iv:
  assumes "block_cipher E D" and "length k = 32" and "length iv = 16" and "length iv' = 16"
    and "length bs mod 16 = 0" and "16 \<le> length bs"
  shows "cbc_decrypt D k iv' (cbc_encrypt E k iv bs)
           = xor_bytes iv' (xor_bytes iv (take 16 bs)) @ drop 16 bs"
proof -
  define b where "b = take 16 bs"
  define c where "c = E k (xor_bytes iv b)"
  have ne: "bs \<noteq> []" using assms(6) by auto
  have lb: "length b = 16" using assms(6) by (simp add: b_def)
  have lx: "length (xor_bytes iv b) = 16" using lb assms(3) by (simp add: length_xor_bytes)
  have bc: "length c = 16" "D k c = xor_bytes iv b"
    using assms(1,2) lx unfolding block_cipher_def c_def by simp_all
  have "(length bs - 16) mod 16 = 0" using assms(5,6) by presburger
  then have rest: "length (drop 16 bs) mod 16 = 0" by simp
  have enc: "cbc_encrypt E k iv bs = c @ cbc_encrypt E k c (drop 16 bs)"
    using ne by (simp add: cbc_encrypt.simps [of E k iv bs] c_def b_def Let_def)
  have tl: "cbc_decrypt D k c (cbc_encrypt E k c (drop 16 bs)) = drop 16 bs"
    using cbc_roundtrip [OF assms(1,2) bc(1) rest] by simp
  have "cbc_decrypt D k iv' (c @ cbc_encrypt E k c (drop 16 bs))
          = xor_bytes iv' (D k c) @ cbc_decrypt D k c (cbc_encrypt E k c (drop 16 bs))"
    using bc(1) by (subst cbc_decrypt.simps) (auto simp: Let_def)
  then show ?thesis
    unfolding enc tl bc(2) b_def .
qed

lemma aes_decrypt_replaced_iv:
  assumes "block_cipher E D" and "length (keyBuffer key) = 32"
    and "length iv = 16" and "length iv' = 16" and "16 \<le> length (utf8_encode P)"
  shows "aes_decrypt D
           (hex_encode iv' @ colon # hex_encode (cbc_encrypt E (keyBuffer key) iv (pad (utf8_encode P))))
           key
         = Inr (utf8_decode (xor_bytes iv' (xor_bytes iv (take 16 (utf8_encode P)))
                              @ drop 16 (utf8_encode P)))"
proof -
  define bs where "bs = utf8_encode P"
  define bs' where "bs' = xor_bytes iv' (xor_bytes iv (take 16 bs)) @ drop 16 bs"
  define cs where "cs = cbc_encrypt E (keyBuffer key) iv (pad bs)"
  have lp: "length (pad bs) mod 16 = 0" by (rule length_pad)
  have l16: "16 \<le> length (pad bs)" using assms(5) by (simp add: pad_def Let_def bs_def)
  have lcs: "length cs = length (pad bs)"
    using cbc_roundtrip [OF assms(1,2,3) lp] by (simp add: cs_def)
  have len: "length bs' = length bs"
    using assms(3,4,5) by (simp add: bs'_def bs_def length_xor_bytes)
  have t: "take 16 (pad bs) = take 16 bs" "drop 16 (pad bs) = drop 16 bs @ drop (length bs) (pad bs)"
    using assms(5) by (simp_all add: pad_def Let_def bs_def)
  have "cbc_decrypt D (keyBuffer key) iv' cs
          = xor_bytes iv' (xor_bytes iv (take 16 (pad bs))) @ drop 16 (pad bs)"
    unfolding cs_def by (rule cbc_decrypt_other_iv [OF assms(1,2,3,4) lp l16])
  also have "\<dots> = bs' @ drop (length bs) (pad bs)"
    by (simp add: t bs'_def)
  also have "\<dots> = pad bs'"
    using pad_same_length [OF len] by simp
  finally have "unpad (cbc_decrypt D (keyBuffer key) iv' cs) = Inr bs'"
    by (simp add: unpad_pad)
  then show ?thesis
    using lcs lp by (simp add: aes_decrypt_hex [OF assms(2,4)] cs_def [symmetric] bs_def [symmetric] bs'_def)
qed

lemma xor_same: "x XOR (y XOR z) = z \<Longrightarrow> x = (y :: byte)"
proof -
  assume a: "x XOR (y XOR z) = z"
  have "x XOR y = (x XOR (y XOR z)) XOR z"
    by (simp add: ac_simps)
  also have "\<dots> = 0" by (simp only: a) simp
  finally have "x XOR y = 0" .
  then have "(x XOR y) XOR y = y" by simp
  then show "x = y" by (simp add: xor.assoc)
qed

lemma xor_bytes_same:
  "length a = length b \<Longrightarrow> length b = length c \<Longrightarrow> xor_bytes a (xor_bytes b c) = c \<Longrightarrow> a = b"
  unfolding xor_bytes_def
proof (induction a b c rule: list_induct3)
  case Nil
  then show ?case by simp
next
  case (Cons x xs y ys z zs)
  from Cons.prems have "x XOR (y XOR z) = z" and "map2 (XOR) xs (map2 (XOR) ys zs) = zs"
    by simp_all
  then show ?case
    using Cons.IH xor_same by simp
qed

lemma replaced_iv_changes_bytes:
  assumes "length iv = 16" and "length iv' = 16" and "16 \<le> length bs" and "iv \<noteq> iv'"
  shows "xor_bytes iv' (xor_bytes iv (take 16 bs)) @ drop 16 bs \<noteq> bs"
proof
  assume "xor_bytes iv' (xor_bytes iv (take 16 bs)) @ drop 16 bs = bs"
  then have "take 16 (xor_bytes iv' (xor_bytes iv (take 16 bs)) @ drop 16 bs) = take 16 bs"
    by simp
  moreover have "length (xor_bytes iv' (xor_bytes iv (take 16 bs))) = 16"
    using assms(1-3) by (simp add: length_xor_bytes)
  ultimately have "xor_bytes iv' (xor_bytes iv (take 16 bs)) = take 16 bs"
    by simp
  moreover have "length iv' = length iv" "length iv = length (take 16 bs)"
    using assms(1-3) by simp_all
  ultimately have "iv' = iv"
    by (rule xor_bytes_same [rotated 2])
  with assms(4) show False by simp
qed

subsection \<open>The claims about the field cipher\<close>

text \<open>
  Claim C5, as amended. For every well-formed plaintext string, every 32-byte key and
  every 16-byte IV drawn by \<open>encrypt\<close>, \<open>decrypt\<close> of the result under the same key
  returns the plaintext. The block transformation is any pair that deciphers what it
  enciphers.
\<close>

theorem aes_roundtrip:
  assumes "block_cipher E D" and "length (keyBuffer key) = 32" and "length iv = 16"
    and "well_formed P"
  shows "\<exists>c. aes_encrypt E iv P key = Inr c \<and> aes_decrypt D c key = Inr P"
  using aes_decrypt_encrypt [OF assms(1,2,3), of P] assms(4)
  by (simp add: utf8_roundtrip)

theorem aes_roundtrip_witness:
  "\<exists>c. aes_encrypt xor_block sample_iv (js ''Alice'') (KeyBuffer sample_key) = Inr c
     \<and> aes_decrypt xor_block c (KeyBuffer sample_key) = Inr (js ''Alice'')"
  using aes_roundtrip [OF block_cipher_xor_block length_sample_key length_sample_iv well_formed_Alice] .

text \<open>
  The claim as stated, for all plaintexts, fails at the string of the one code unit
  D800 (hexadecimal), an unpaired surrogate: \<open>encrypt\<close> writes it as the three bytes of
  U+FFFD, and \<open>decrypt\<close> returns the string of the one code unit FFFD (lemma
  \<open>aes_lone_surrogate\<close>, for every block transformation).
\<close>

theorem aes_roundtrip_counterexample:
  "\<not> (\<forall>E D k iv. block_cipher E D \<longrightarrow> length k = 32 \<longrightarrow> length iv = 16 \<longrightarrow>
         (\<exists>c. aes_encrypt E iv [0xD800] (KeyBuffer k) = Inr c
              \<and> aes_decrypt D c (KeyBuffer k) = Inr [0xD800]))"
proof
  assume a: "\<forall>E D k iv. block_cipher E D \<longrightarrow> length k = 32 \<longrightarrow> length iv = 16 \<longrightarrow>
         (\<exists>c. aes_encrypt E iv [0xD800] (KeyBuffer k) = Inr c
              \<and> aes_decrypt D c (KeyBuffer k) = Inr [0xD800])"
  from a block_cipher_xor_block length_sample_iv have "\<exists>c. aes_encrypt xor_block sample_iv [0xD800] (KeyBuffer sample_key) = Inr c
      \<and> aes_decrypt xor_block c (KeyBuffer sample_key) = Inr [0xD800]"
    by (simp add: sample_key_def)
  then obtain c where c: "aes_encrypt xor_block sample_iv [0xD800] (KeyBuffer sample_key) = Inr c"
      "aes_decrypt xor_block c (KeyBuffer sample_key) = Inr [0xD800]"
    by blast
  from aes_lone_surrogate [OF block_cipher_xor_block length_sample_key length_sample_iv]
  obtain c' where c': "aes_encrypt xor_block sample_iv [0xD800] (KeyBuffer sample_key) = Inr c'"
      "aes_decrypt xor_block c' (KeyBuffer sample_key) = Inr [0xFFFD]"
    by auto
  from c(1) c'(1) have "c = c'" by simp
  with c(2) c'(2) show False by simp
qed

text \<open>
  Claim C6. Two calls of \<open>encrypt\<close> on the same plaintext and 32-byte key that draw
  different IVs both return a ciphertext, and the two ciphertexts differ: the IV is the
  first field of the result.
\<close>

theorem aes_distinct_iv:
  assumes "length (keyBuffer key) = 32" and "length iv = 16" and "length iv' = 16"
    and "iv \<noteq> iv'"
  shows "\<exists>c1 c2. aes_encrypt E iv P key = Inr c1 \<and> aes_encrypt E iv' P key = Inr c2 \<and> c1 \<noteq> c2"
proof -
  have "hex_encode iv \<noteq> hex_encode iv'"
    using assms(4) hex_encode_inj by blast
  moreover have "length (hex_encode iv) = length (hex_encode iv')"
    using assms(2,3) by (simp add: length_hex_encode)
  ultimately show ?thesis
    using assms(1-3) by (simp add: aes_encrypt_ok)
qed

theorem aes_distinct_iv_witness:
  "\<exists>c1 c2. aes_encrypt xor_block sample_iv (js ''Alice'') (KeyBuffer sample_key) = Inr c1
         \<and> aes_encrypt xor_block other_iv (js ''Alice'') (KeyBuffer sample_key) = Inr c2 \<and> c1 \<noteq> c2"
  using aes_distinct_iv [OF length_sample_key length_sample_iv length_other_iv sample_iv_other_iv] .

section \<open>Encrypting and decrypting a user's fields\<close>

text \<open>
  A user as the callers see it (\<open>userData\<close>, and what \<open>decryptUserData\<close> returns), and
  as a row of the \<open>users\<close> table (\<open>encryptedUser\<close>); \<open>None\<close> is \<open>undefined\<close> or \<open>null\<close>.
  The columns \<open>email\<close> and \<open>phone\<close> of the row are named \<open>email_col\<close> and \<open>phone_col\<close>.
\<close>

record profile =
  email :: jsstring
  firstName :: jsstring
  lastName :: jsstring
  phone :: "jsstring option"

record user_data = profile +
  password :: jsstring
  gender :: jsval
  birthDate :: jsval

record encrypted_user =
  email_col :: jsstring
  first_name :: "jsstring option"
  last_name :: "jsstring option"
  phone_col :: "jsstring option"
  encryption_key :: "jsstring option"

record preferences =
  gender_pref :: jsval
  birth_date :: jsval
  encrypted :: bool

text \<open>\<open>x || ''\<close> and \<open>x || null\<close> on a column that holds a string or \<open>null\<close>.\<close>

definition or_empty :: "jsstring option \<Rightarrow> jsstring" where
  "or_empty x = (case x of None \<Rightarrow> [] | Some s \<Rightarrow> s)"

definition or_null :: "jsstring option \<Rightarrow> jsstring option" where
  "or_null x = (case x of None \<Rightarrow> None | Some s \<Rightarrow> if s = [] then None else Some s)"

definition present :: "jsstring option \<Rightarrow> bool" where
  "present x = (case x of None \<Rightarrow> False | Some s \<Rightarrow> s \<noteq> [])"

text \<open>
  \<open>AuthService.encryptUserData\<close>. The random draws of the call are arguments: the key
  of \<open>generateKey\<close> and the IV of each \<open>encrypt\<close>.
\<close>

definition encryptUserData ::
  "block_fun \<Rightarrow> byte list \<Rightarrow> byte list \<Rightarrow> byte list \<Rightarrow> byte list \<Rightarrow> 'a user_data_scheme
     \<Rightarrow> crypto_error + encrypted_user \<times> preferences" where
  "encryptUserData E encryptionKey iv1 iv2 iv3 userData =
     (case aes_encrypt E iv1 (firstName userData) (KeyBuffer encryptionKey) of
        Inl e \<Rightarrow> Inl e
      | Inr fname \<Rightarrow>
     (case aes_encrypt E iv2 (lastName userData) (KeyBuffer encryptionKey) of
        Inl e \<Rightarrow> Inl e
      | Inr lname \<Rightarrow>
     (case (if present (phone userData)
            then map_sum id Some (aes_encrypt E iv3 (the (phone userData)) (KeyBuffer encryptionKey))
            else Inr None) of
        Inl e \<Rightarrow> Inl e
      | Inr ph \<Rightarrow>
          Inr (\<lparr>email_col = email userData, first_name = Some fname, last_name = Some lname,
                phone_col = ph, encryption_key = Some (hex_encode encryptionKey)\<rparr>,
               \<lparr>gender_pref = gender userData, birth_date = birthDate userData,
                encrypted = True\<rparr>))))"

text \<open>
  \<open>AuthService.decryptUserData\<close>. Without a key the stored values are returned; an error
  thrown by \<open>decrypt\<close> is caught, and the stored values are returned as well.
\<close>

definition plain_data :: "'a encrypted_user_scheme \<Rightarrow> profile" where
  "plain_data encryptedUser =
     \<lparr>email = email_col encryptedUser, firstName = or_empty (first_name encryptedUser),
      lastName = or_empty (last_name encryptedUser), phone = or_null (phone_col encryptedUser)\<rparr>"

definition decrypt_column :: "block_fun \<Rightarrow> key_arg \<Rightarrow> jsstring option \<Rightarrow> crypto_error + jsstring option" where
  "decrypt_column D key x =
     (if present x then map_sum id Some (aes_decrypt D (the x) key) else Inr None)"

definition decryptUserData :: "block_fun \<Rightarrow> 'a encrypted_user_scheme \<Rightarrow> profile" where
  "decryptUserData D encryptedUser =
     (if \<not> present (encryption_key encryptedUser) then plain_data encryptedUser
      else (let encryptionKey = KeyBuffer (hex_decode (the (encryption_key encryptedUser))) in
        case decrypt_column D encryptionKey (first_name encryptedUser) of
          Inl e \<Rightarrow> plain_data encryptedUser
        | Inr fname \<Rightarrow>
        (case decrypt_column D encryptionKey (last_name encryptedUser) of
           Inl e \<Rightarrow> plain_data encryptedUser
         | Inr lname \<Rightarrow>
         (case decrypt_column D encryptionKey (phone_col encryptedUser) of
            Inl e \<Rightarrow> plain_data encryptedUser
          | Inr ph \<Rightarrow>
              \<lparr>email = email_col encryptedUser, firstName = or_empty fname,
               lastName = or_empty lname, phone = ph\<rparr>))))"

lemma decryptUserData_fallback:
  assumes "present (encryption_key u)"
    and "x = first_name u \<or> x = last_name u \<or> x = phone_col u"
    and "present x"
    and "aes_decrypt D (the x) (KeyBuffer (hex_decode (the (encryption_key u)))) = Inl e"
  shows "decryptUserData D u = plain_data u"
  using assms
  by (auto simp: decryptUserData_def decrypt_column_def Let_def split: sum.splits)

subsection \<open>The claim about tampered ciphertexts\<close>

lemma sample_iv_list:
  "sample_iv = [100, 101, 102, 103, 104, 105, 106, 107, 108, 109, 110, 111, 112, 113, 114, 115]"
  by (simp add: sample_iv_def upt_conv_Cons)

lemma utf8_digits:
  "utf8_encode (js ''0123456789abcdef'')
     = [48, 49, 50, 51, 52, 53, 54, 55, 56, 57, 97, 98, 99, 100, 101, 102]"
  by (simp add: utf8_encode_def js_def high_surrogate_def low_surrogate_def utf8_bytes_def)

lemma tampered_text:
  "utf8_decode (xor_bytes (sample_iv[0 := sample_iv ! 0 XOR 1])
       (xor_bytes sample_iv [48, 49, 50, 51, 52, 53, 54, 55, 56, 57, 97, 98, 99, 100, 101, 102]))
     = js ''1123456789abcdef''"
  by (simp add: sample_iv_list xor_bytes_def js_def)

lemma replaced_iv_example:
  "xor_bytes (sample_iv[1 := sample_iv ! 1 XOR 2])
       (xor_bytes sample_iv (take 16 (utf8_encode (js ''0123456789abcdef''))))
     @ drop 16 (utf8_encode (js ''0123456789abcdef''))
   = utf8_encode (js ''0323456789abcdef'')"
  by (simp add: utf8_digits sample_iv_list xor_bytes_def)
     (simp add: utf8_encode_def js_def high_surrogate_def low_surrogate_def utf8_bytes_def)

lemma well_formed_example: "well_formed (js ''0323456789abcdef'')"
  by (simp add: js_def high_surrogate_def low_surrogate_def)

text \<open>
  A replaced IV need not change the text that \<open>decrypt\<close> returns: the decoder reads U+FFFD
  from bytes that are not valid UTF-8.
\<close>

lemma utf8_replacement_text:
  "utf8_encode replacement_text
     = [239, 191, 189, 239, 191, 189, 239, 191, 189, 239, 191, 189, 239, 191, 189, 97]"
  by (simp add: replacement_text_def utf8_encode_def high_surrogate_def low_surrogate_def utf8_bytes_def)

lemma replaced_iv_same_text:
  assumes "block_cipher E D" and "length (keyBuffer key) = 32"
    and "aes_encrypt E sample_iv replacement_text key = Inr c"
  shows "aes_decrypt D (hex_encode (sample_iv[12 := 111, 13 := 94, 14 := 79]) @ drop 32 c) key
           = Inr replacement_text
         \<and> hex_encode (sample_iv[12 := 111, 13 := 94, 14 := 79]) @ drop 32 c \<noteq> c"
proof -
  have l: "length (sample_iv[12 := 111, 13 := 94, 14 := 79]) = 16"
    by (simp add: length_sample_iv)
  have b: "16 \<le> length (utf8_encode replacement_text)"
    by (simp add: utf8_replacement_text)
  have n: "sample_iv \<noteq> sample_iv[12 := 111, 13 := 94, 14 := 79]"
    by (simp add: sample_iv_list)
  have x: "xor_bytes (sample_iv[12 := 111, 13 := 94, 14 := 79])
             (xor_bytes sample_iv (take 16 (utf8_encode replacement_text)))
           @ drop 16 (utf8_encode replacement_text)
           = [239, 191, 189, 239, 191, 189, 239, 191, 189, 239, 191, 189, 240, 144, 128, 97]"
    by (simp add: utf8_replacement_text sample_iv_list xor_bytes_def)
  have d: "utf8_decode [239, 191, 189, 239, 191, 189, 239, 191, 189, 239, 191, 189, 240, 144, 128, 97]
             = replacement_text"
    by (simp add: replacement_text_def second_ok_def cont_def)
  from assms(3) have c: "c = hex_encode sample_iv @ colon #
      hex_encode (cbc_encrypt E (keyBuffer key) sample_iv (pad (utf8_encode replacement_text)))"
    by (simp add: aes_encrypt_ok [OF assms(2) length_sample_iv])
  then have "drop 32 c = colon #
      hex_encode (cbc_encrypt E (keyBuffer key) sample_iv (pad (utf8_encode replacement_text)))"
    by (simp add: length_hex_encode length_sample_iv)
  moreover have "aes_decrypt D
             (hex_encode (sample_iv[12 := 111, 13 := 94, 14 := 79]) @ colon #
              hex_encode (cbc_encrypt E (keyBuffer key) sample_iv (pad (utf8_encode replacement_text))))
             key
           = Inr replacement_text"
    using aes_decrypt_replaced_iv [OF assms(1,2) length_sample_iv l b] unfolding x d .
  ultimately have "aes_decrypt D (hex_encode (sample_iv[12 := 111, 13 := 94, 14 := 79]) @ drop 32 c) key
           = Inr replacement_text"
    by (simp only:)
  moreover have "take 32 (hex_encode (sample_iv[12 := 111, 13 := 94, 14 := 79]) @ drop 32 c)
                   = hex_encode (sample_iv[12 := 111, 13 := 94, 14 := 79])"
       "take 32 c = hex_encode sample_iv"
    using l by (simp_all add: c length_hex_encode length_sample_iv)
  then have "hex_encode (sample_iv[12 := 111, 13 := 94, 14 := 79]) @ drop 32 c \<noteq> c"
    using n hex_encode_inj by metis
  ultimately show ?thesis by simp
qed

text \<open>
  Claim C2, as amended. \<open>decrypt\<close> performs no integrity check. For every 32-byte key,
  every ciphertext that \<open>encrypt\<close> produced for a plaintext of at least 16 bytes, and
  every 16-byte value, the ciphertext with its IV field replaced by that value is
  accepted: \<open>decrypt\<close> returns, without an error, the text that the UTF-8 decoder reads from
  the plaintext's bytes with the first 16 XORed by both IVs. When the two IVs differ, the
  modified ciphertext is not the one that \<open>encrypt\<close> returned, and these bytes are not the
  plaintext's bytes; whenever they are the UTF-8 encoding of a well-formed string,
  \<open>decrypt\<close> returns that string, which is not the plaintext. (The decoder may read the
  plaintext itself from bytes that are not valid UTF-8: it replaces them by U+FFFD.) When
  \<open>decrypt\<close> does fail on a stored column, \<open>decryptUserData\<close> catches the error and returns
  the stored values (lemma \<open>decryptUserData_fallback\<close>).
\<close>

theorem aes_decrypt_accepts_replaced_iv:
  assumes "block_cipher E D" and "length (keyBuffer key) = 32"
    and "length iv = 16" and "length iv' = 16" and "16 \<le> length (utf8_encode P)"
    and "aes_encrypt E iv P key = Inr c"
  shows "let bs' = xor_bytes iv' (xor_bytes iv (take 16 (utf8_encode P))) @ drop 16 (utf8_encode P) in
           aes_decrypt D (hex_encode iv' @ drop 32 c) key = Inr (utf8_decode bs')
         \<and> (iv \<noteq> iv' \<longrightarrow> hex_encode iv' @ drop 32 c \<noteq> c \<and> bs' \<noteq> utf8_encode P)
         \<and> (\<forall>t. well_formed t \<and> utf8_encode t = bs' \<longrightarrow>
                aes_decrypt D (hex_encode iv' @ drop 32 c) key = Inr t \<and> (iv \<noteq> iv' \<longrightarrow> t \<noteq> P))"
proof -
  define bs' where "bs' = xor_bytes iv' (xor_bytes iv (take 16 (utf8_encode P))) @ drop 16 (utf8_encode P)"
  from assms(6) have c: "c = hex_encode iv @ colon # hex_encode (cbc_encrypt E (keyBuffer key) iv (pad (utf8_encode P)))"
    by (simp add: aes_encrypt_ok [OF assms(2,3)])
  then have "drop 32 c = colon # hex_encode (cbc_encrypt E (keyBuffer key) iv (pad (utf8_encode P)))"
    using assms(3) by (simp add: length_hex_encode)
  then have d: "aes_decrypt D (hex_encode iv' @ drop 32 c) key = Inr (utf8_decode bs')"
    using aes_decrypt_replaced_iv [OF assms(1-5)] by (simp add: bs'_def)
  have n: "hex_encode iv' @ drop 32 c \<noteq> c \<and> bs' \<noteq> utf8_encode P" if "iv \<noteq> iv'"
  proof
    have "take 32 (hex_encode iv' @ drop 32 c) = hex_encode iv'" "take 32 c = hex_encode iv"
      using assms(3,4) by (simp_all add: c length_hex_encode)
    moreover have "hex_encode iv' \<noteq> hex_encode iv"
      using that hex_encode_inj by blast
    ultimately show "hex_encode iv' @ drop 32 c \<noteq> c"
      by metis
    show "bs' \<noteq> utf8_encode P"
      unfolding bs'_def by (rule replaced_iv_changes_bytes [OF assms(3,4,5) that])
  qed
  have t: "aes_decrypt D (hex_encode iv' @ drop 32 c) key = Inr t \<and> (iv \<noteq> iv' \<longrightarrow> t \<noteq> P)"
    if "well_formed t \<and> utf8_encode t = bs'" for t
  proof -
    from that have "utf8_decode bs' = t"
      using utf8_roundtrip by blast
    moreover have "t \<noteq> P" if "iv \<noteq> iv'"
      using n [OF that] \<open>well_formed t \<and> utf8_encode t = bs'\<close> by blast
    ultimately show ?thesis
      using d by simp
  qed
  show ?thesis
    unfolding Let_def bs'_def [symmetric] using d n t by blast
qed

theorem aes_decrypt_accepts_replaced_iv_witness:
  "aes_decrypt xor_block
     (hex_encode (sample_iv[1 := sample_iv ! 1 XOR 2]) @ drop 32
        (hex_encode sample_iv @ colon #
           hex_encode (cbc_encrypt xor_block (keyBuffer (KeyBuffer sample_key)) sample_iv
                         (pad (utf8_encode (js ''0123456789abcdef''))))))
     (KeyBuffer sample_key)
   = Inr (js ''0323456789abcdef'')
   \<and> js ''0323456789abcdef'' \<noteq> js ''0123456789abcdef''"
proof -
  have l: "length (sample_iv[1 := sample_iv ! 1 XOR 2]) = 16"
    by (simp add: length_sample_iv)
  have b: "16 \<le> length (utf8_encode (js ''0123456789abcdef''))"
    by (simp add: utf8_digits)
  have n: "sample_iv \<noteq> sample_iv[1 := sample_iv ! 1 XOR 2]"
    by (simp add: sample_iv_list)
  from aes_decrypt_accepts_replaced_iv
          [OF block_cipher_xor_block length_sample_key length_sample_iv l b
              aes_encrypt_ok [OF length_sample_key length_sample_iv]]
  have "\<forall>t. well_formed t \<and> utf8_encode t
            = xor_bytes (sample_iv[1 := sample_iv ! 1 XOR 2])
                (xor_bytes sample_iv (take 16 (utf8_encode (js ''0123456789abcdef''))))
              @ drop 16 (utf8_encode (js ''0123456789abcdef'')) \<longrightarrow>
          aes_decrypt xor_block
            (hex_encode (sample_iv[1 := sample_iv ! 1 XOR 2]) @ drop 32
               (hex_encode sample_iv @ colon #
                  hex_encode (cbc_encrypt xor_block (keyBuffer (KeyBuffer sample_key)) sample_iv
                                (pad (utf8_encode (js ''0123456789abcdef''))))))
            (KeyBuffer sample_key) = Inr t
          \<and> (sample_iv \<noteq> sample_iv[1 := sample_iv ! 1 XOR 2] \<longrightarrow> t \<noteq> js ''0123456789abcdef'')"
    unfolding Let_def by blast
  note r = this [rule_format, OF conjI [OF well_formed_example replaced_iv_example [symmetric]]]
  show ?thesis
    by (rule conjI [OF r [THEN conjunct1] r [THEN conjunct2, THEN mp, OF n]])
qed

text \<open>
  The claim as stated (a ciphertext with a flipped bit is rejected, never decrypted to
  another plaintext) fails here: the lowest bit of the first IV byte of the ciphertext of
  \<open>"0123456789abcdef"\<close> is flipped, and \<open>decrypt\<close> returns \<open>"1123456789abcdef"\<close>.
\<close>

theorem tamper_counterexample:
  "(case aes_encrypt xor_block sample_iv (js ''0123456789abcdef'') (KeyBuffer sample_key) of
      Inl e \<Rightarrow> False
    | Inr c \<Rightarrow>
        aes_decrypt xor_block (hex_encode (sample_iv[0 := sample_iv ! 0 XOR 1]) @ drop 32 c)
          (KeyBuffer sample_key)
        = Inr (js ''1123456789abcdef''))"
proof -
  have l: "length (sample_iv[0 := sample_iv ! 0 XOR 1]) = 16"
    by (simp add: length_sample_iv)
  have b: "16 \<le> length (utf8_encode (js ''0123456789abcdef''))"
    by (simp add: utf8_digits)
  show ?thesis
    using aes_decrypt_replaced_iv [OF block_cipher_xor_block length_sample_key length_sample_iv l b]
    by (simp add: aes_encrypt_ok [OF length_sample_key length_sample_iv] length_hex_encode
        length_sample_iv utf8_digits tampered_text)
qed

section \<open>Registration\<close>

subsection \<open>The relational store (MySQL)\<close>

text \<open>
  A row of the table \<open>users\<close> that \<open>storeUserInMySQL\<close> creates: the columns of
  \<open>encrypted_user\<close>, \<open>password_hash\<close>, \<open>session_id\<close>, \<open>auth_key\<close> (named \<open>session_id_col\<close>
  and \<open>auth_key_col\<close> here) and the key \<open>id\<close> (named \<open>row_id\<close>). The object that
  \<open>register\<close> hands to \<open>storeUserInMySQL\<close> has all of them but the key.
\<close>

record user_record = encrypted_user +
  password_hash :: jsstring
  session_id_col :: jsval
  auth_key_col :: jsval

record user_row = user_record +
  row_id :: nat

text \<open>
  The connection: the two tables (\<open>None\<close> when a table does not exist), the
  \<open>AUTO_INCREMENT\<close> counter of \<open>users\<close>, and the faults to come: the head of \<open>faults\<close>
  tells whether the next statement fails before it takes effect (a lost connection, a
  timeout, a refusal caused by a part of the database that is not modelled); no fault is
  pending when the list is empty.
\<close>

record mysql =
  users :: "user_row list option"
  users_auto_increment :: nat
  user_sessions :: "(nat \<times> nat \<times> jsstring) list option"
  faults :: "bool list"

datatype mysql_error =
    ServerError | NoSuchTable | TableExists | DuplicateEntry | DataTooLong
  | ReferencedByForeignKey | ForeignKeyTargetMissing

datatype statement =
    DROP_user_sessions | DROP_users | CREATE_users | CREATE_user_sessions
  | INSERT_user jsstring jsstring | INSERT_user_null_id jsstring jsstring

text \<open>
  \<open>INSERT INTO users (email, password_hash)\<close>: the other columns are \<open>NULL\<close>, the key is
  the counter's value. The columns are \<open>VARCHAR(255)\<close>, and \<open>email\<close> is \<open>UNIQUE\<close>.
\<close>

definition new_row :: "jsstring \<Rightarrow> jsstring \<Rightarrow> nat \<Rightarrow> user_row" where
  "new_row e h i =
     \<lparr>email_col = e, first_name = None, last_name = None, phone_col = None,
      encryption_key = None, password_hash = h, session_id_col = JNull,
      auth_key_col = JNull, row_id = i\<rparr>"

definition insert_user :: "jsstring \<Rightarrow> jsstring \<Rightarrow> mysql \<Rightarrow> (mysql_error + nat) \<times> mysql" where
  "insert_user e h db =
     (case users db of
        None \<Rightarrow> (Inl NoSuchTable, db)
      | Some rows \<Rightarrow>
          if 255 < length e \<or> 255 < length h then (Inl DataTooLong, db)
          else if e \<in> set (map email_col rows) then (Inl DuplicateEntry, db)
          else (Inr (users_auto_increment db),
                db\<lparr>users := Some (rows @ [new_row e h (users_auto_increment db)]),
                   users_auto_increment := users_auto_increment db + 1\<rparr>))"

fun run :: "statement \<Rightarrow> mysql \<Rightarrow> (mysql_error + nat) \<times> mysql" where
  "run DROP_user_sessions db = (Inr 0, db\<lparr>user_sessions := None\<rparr>)"
| "run DROP_users db =
     (if user_sessions db \<noteq> None then (Inl ReferencedByForeignKey, db)
      else (Inr 0, db\<lparr>users := None\<rparr>))"
| "run CREATE_users db =
     (if users db \<noteq> None then (Inl TableExists, db)
      else (Inr 0, db\<lparr>users := Some [], users_auto_increment := 1\<rparr>))"
| "run CREATE_user_sessions db =
     (if user_sessions db \<noteq> None then (Inl TableExists, db)
      else if users db = None then (Inl ForeignKeyTargetMissing, db)
      else (Inr 0, db\<lparr>user_sessions := Some []\<rparr>))"
| "run (INSERT_user e h) db = insert_user e h db"
| "run (INSERT_user_null_id e h) db = insert_user e h db"

definition execute :: "mysql \<Rightarrow> statement \<Rightarrow> (mysql_error + nat) \<times> mysql" where
  "execute db st =
     (case faults db of
        [] \<Rightarrow> run st db
      | f # fs \<Rightarrow> if f then (Inl ServerError, db\<lparr>faults := fs\<rparr>) else run st (db\<lparr>faults := fs\<rparr>))"

text \<open>The next statement runs when the one before returned; an error skips the rest.\<close>

definition and_then ::
  "(mysql_error + nat) \<times> mysql \<Rightarrow> (mysql \<Rightarrow> (mysql_error + nat) \<times> mysql)
     \<Rightarrow> (mysql_error + nat) \<times> mysql" where
  "and_then m f = (case m of (Inl e, db) \<Rightarrow> (Inl e, db) | (Inr r, db) \<Rightarrow> f db)"

text \<open>
  \<open>AuthService.storeUserInMySQL\<close>, the body of the outer \<open>try\<close>: both tables are dropped
  and created again, then the row is inserted; when the insert throws, it is tried once
  more with an explicit \<open>NULL\<close> key.
\<close>

definition storeUserInMySQL_try :: "mysql \<Rightarrow> jsstring \<Rightarrow> jsstring \<Rightarrow> (mysql_error + nat) \<times> mysql" where
  "storeUserInMySQL_try db e h =
     and_then (execute db DROP_user_sessions) (\<lambda>db.
     and_then (execute db DROP_users) (\<lambda>db.
     and_then (execute db CREATE_users) (\<lambda>db.
     and_then (execute db CREATE_user_sessions) (\<lambda>db.
       case execute db (INSERT_user e h) of
         (Inr insertId, db) \<Rightarrow> (Inr insertId, db)
       | (Inl insertError, db) \<Rightarrow> execute db (INSERT_user_null_id e h)))))"

text \<open>
  The outer \<open>catch\<close> returns \<open>Math.floor(Math.random() * 10000)\<close>; \<open>random\<close> is the
  value that \<open>Math.random()\<close> draws, a real number from 0 up to but not including 1.
\<close>

definition storeUserInMySQL :: "mysql \<Rightarrow> 'a user_record_scheme \<Rightarrow> real \<Rightarrow> nat \<times> mysql" where
  "storeUserInMySQL db userData random =
     (case storeUserInMySQL_try db (email_col userData) (password_hash userData) of
        (Inr insertId, db') \<Rightarrow> (insertId, db')
      | (Inl error, db') \<Rightarrow> (nat \<lfloor>random * 10000\<rfloor>, db'))"

subsection \<open>The document store (MongoDB)\<close>

record profile_doc =
  user_id :: nat
  doc_preferences :: preferences
  registration_date :: nat
  mtproto_session :: jsval
  encryption_version :: string

record mongo =
  mongo_up :: bool
  user_profiles :: "profile_doc list"

datatype mongo_error = MongoError

definition storeUserProfileInMongoDB :: "mongo \<Rightarrow> profile_doc \<Rightarrow> (mongo_error + unit) \<times> mongo" where
  "storeUserProfileInMongoDB m doc =
     (if \<not> mongo_up m then (Inl MongoError, m)
      else (Inr (), m\<lparr>user_profiles := user_profiles m @ [doc]\<rparr>))"

subsection \<open>register\<close>

text \<open>
  The three stores of the service, which is taken as initialised (the connections exist).
\<close>

record services =
  mysql_of :: mysql
  mongodb_of :: mongo
  redis_of :: redis

text \<open>
  The random draws of one call of \<open>register\<close>: the field encryption key and the three
  IVs, the salt of \<open>bcrypt.hash\<close>, the UUID and the 256 bytes of \<open>createSession\<close>, and the
  value of \<open>Math.random()\<close>.
\<close>

record draws =
  key_draw :: "byte list"
  iv_first :: "byte list"
  iv_last :: "byte list"
  iv_phone :: "byte list"
  salt :: jsstring
  uuid :: jsstring
  auth_key_bytes :: "byte list"
  random :: real

definition createSession :: "draws \<Rightarrow> session_data" where
  "createSession d = \<lparr>session_id = JStr (uuid d), auth_key = JStr (hex_encode (auth_key_bytes d))\<rparr>"

datatype register_error = FailedToRegister "crypto_error + mongo_error"

record register_result =
  success :: bool
  userId_res :: nat
  sessionId_res :: jsval
  message :: string

text \<open>
  \<open>AuthService.register\<close>. \<open>bcrypt.hash\<close> is the library's: \<open>H password salt\<close> is the
  hash it returns.
\<close>

definition register ::
  "block_fun \<Rightarrow> (jsstring \<Rightarrow> jsstring \<Rightarrow> jsstring) \<Rightarrow> services \<Rightarrow> draws \<Rightarrow> nat \<Rightarrow> 'a user_data_scheme
     \<Rightarrow> (register_error + register_result) \<times> services" where
  "register E H s d now userData =
     (case encryptUserData E (key_draw d) (iv_first d) (iv_last d) (iv_phone d) userData of
        Inl e \<Rightarrow> (Inl (FailedToRegister (Inl e)), s)
      | Inr (encryptedData, prefs) \<Rightarrow>
          let hashedPassword = H (password userData) (salt d);
              sessionData = createSession d;
              (userId, db) = storeUserInMySQL (mysql_of s)
                 \<lparr>email_col = email_col encryptedData, first_name = first_name encryptedData,
                  last_name = last_name encryptedData, phone_col = phone_col encryptedData,
                  encryption_key = encryption_key encryptedData,
                  password_hash = hashedPassword, session_id_col = session_id sessionData,
                  auth_key_col = auth_key sessionData\<rparr>
                 (random d);
              s1 = s\<lparr>mysql_of := db\<rparr>
          in (case storeUserProfileInMongoDB (mongodb_of s1)
                     \<lparr>user_id = userId, doc_preferences = prefs, registration_date = now,
                      mtproto_session = session_id sessionData, encryption_version = ''1.0''\<rparr> of
                (Inl e, m) \<Rightarrow> (Inl (FailedToRegister (Inr e)), s1\<lparr>mongodb_of := m\<rparr>)
              | (Inr u, m) \<Rightarrow>
                  (Inr \<lparr>success = True, userId_res = userId,
                        sessionId_res = session_id sessionData,
                        message = ''User registered successfully with MTProto encryption''\<rparr>,
                   s1\<lparr>mongodb_of := m,
                      redis_of := cacheUserSession (redis_of s1) now (JNum (int userId)) sessionData\<rparr>)))"

definition registered :: "draws \<Rightarrow> nat \<Rightarrow> register_result" where
  "registered d i = \<lparr>success = True, userId_res = i, sessionId_res = JStr (uuid d),
     message = ''User registered successfully with MTProto encryption''\<rparr>"

subsection \<open>Example states\<close>

text \<open>
  A store that holds one account, the same store with a fault pending, and stand-ins for
  \<open>bcrypt.hash\<close> and the random draws.
\<close>

definition one_account :: mysql where
  "one_account = \<lparr>users = Some [new_row (js ''a@x.com'') (js ''old-hash'') 1],
     users_auto_increment = 2, user_sessions = Some [], faults = []\<rparr>"

definition sample_services :: "mysql \<Rightarrow> services" where
  "sample_services db = \<lparr>mysql_of = db, mongodb_of = \<lparr>mongo_up = True, user_profiles = []\<rparr>,
     redis_of = empty_redis\<rparr>"

definition sample_draws :: draws where
  "sample_draws = \<lparr>key_draw = sample_key, iv_first = sample_iv, iv_last = sample_iv,
     iv_phone = sample_iv, salt = js ''s'', uuid = js ''u-1'', auth_key_bytes = [1, 2],
     random = 3 / 20000\<rparr>"

definition sample_hash :: "jsstring \<Rightarrow> jsstring \<Rightarrow> jsstring" where
  "sample_hash p s = s @ p"

definition alice :: user_data where
  "alice = \<lparr>email = js ''a@x.com'', firstName = js ''Alice'', lastName = js ''A'', phone = None,
     password = js ''Str0ng!Pass'', gender = JUndefined, birthDate = JUndefined\<rparr>"



subsection \<open>What register does to the stores\<close>

lemma execute_no_fault: "faults db = [] \<Longrightarrow> execute db st = run st db"
  by (simp add: execute_def)

lemma storeUserInMySQL_try_no_fault:
  assumes "faults db = []" and "length e \<le> 255" and "length h \<le> 255"
  shows "storeUserInMySQL_try db e h
           = (Inr 1, db\<lparr>user_sessions := Some [], users := Some [new_row e h 1],
                          users_auto_increment := 2\<rparr>)"
  using assms
  by (simp add: storeUserInMySQL_try_def and_then_def execute_no_fault insert_user_def)

lemma storeUserInMySQL_try_result:
  "(case storeUserInMySQL_try db e h of
      (Inr i, db') \<Rightarrow> i = 1 \<and> users db' = Some [new_row e h 1]
    | (Inl err, db') \<Rightarrow> users db' = users db \<or> users db' = None \<or> users db' = Some [])"
  by (auto simp: storeUserInMySQL_try_def and_then_def execute_def insert_user_def
      split: list.splits if_splits prod.splits sum.splits option.splits)

lemma encryptUserData_ok:
  assumes "length k = 32" and "length iv1 = 16" and "length iv2 = 16" and "length iv3 = 16"
  shows "\<exists>enc. encryptUserData E k iv1 iv2 iv3 userData
                 = Inr (enc, \<lparr>gender_pref = gender userData, birth_date = birthDate userData,
                               encrypted = True\<rparr>)
               \<and> email_col enc = email userData"
  using assms by (simp add: encryptUserData_def aes_encrypt_ok)

lemma register_stored:
  assumes "length (key_draw d) = 32" and "length (iv_first d) = 16" and "length (iv_last d) = 16"
    and "length (iv_phone d) = 16" and "mongo_up (mongodb_of s)"
    and "storeUserInMySQL_try (mysql_of s) (email userData) (H (password userData) (salt d)) = (r, db)"
  shows "\<exists>s'. register E H s d now userData
                = (Inr (registered d (case r of Inr i \<Rightarrow> i | Inl err \<Rightarrow> nat \<lfloor>random d * 10000\<rfloor>)), s')
              \<and> mysql_of s' = db"
proof -
  from encryptUserData_ok [OF assms(1-4), of E userData]
  obtain enc where enc: "encryptUserData E (key_draw d) (iv_first d) (iv_last d) (iv_phone d) userData
       = Inr (enc, \<lparr>gender_pref = gender userData, birth_date = birthDate userData, encrypted = True\<rparr>)"
     "email_col enc = email userData"
    by blast
  show ?thesis
    using assms(5,6) enc(2)
    by (cases r)
       (simp_all add: register_def enc(1) storeUserInMySQL_def storeUserProfileInMongoDB_def
          createSession_def registered_def Let_def)
qed

lemma length_sample_key_bytes: "length sample_key = 32"
  by (simp add: sample_key_def)

lemma sample_draws_lengths:
  "length (key_draw sample_draws) = 32" "length (iv_first sample_draws) = 16"
  "length (iv_last sample_draws) = 16" "length (iv_phone sample_draws) = 16"
  by (simp_all add: sample_draws_def sample_key_def sample_iv_def)



lemma register_mysql:
  "mysql_of (snd (register E H s d now userData)) = mysql_of s
   \<or> mysql_of (snd (register E H s d now userData))
       = snd (storeUserInMySQL_try (mysql_of s) (email userData) (H (password userData) (salt d)))"
  by (auto simp: register_def encryptUserData_def storeUserInMySQL_def
        storeUserProfileInMongoDB_def Let_def
      split: sum.splits prod.splits if_splits)

lemma register_unique_emails:
  assumes "\<And>rows. users (mysql_of s) = Some rows \<Longrightarrow> distinct (map email_col rows)"
    and "users (mysql_of (snd (register E H s d now userData))) = Some rows'"
  shows "distinct (map email_col rows')"
proof -
  define e where "e = email userData"
  define h where "h = H (password userData) (salt d)"
  have "users (snd (storeUserInMySQL_try (mysql_of s) e h)) = users (mysql_of s)
      \<or> users (snd (storeUserInMySQL_try (mysql_of s) e h)) = None
      \<or> users (snd (storeUserInMySQL_try (mysql_of s) e h)) = Some []
      \<or> users (snd (storeUserInMySQL_try (mysql_of s) e h)) = Some [new_row e h 1]"
    using storeUserInMySQL_try_result [of "mysql_of s" e h]
    by (auto split: prod.splits sum.splits)
  with register_mysql [of E H s d now userData] assms show ?thesis
    unfolding e_def h_def by auto
qed

subsection \<open>The claims about register\<close>

text \<open>
  Claim C3, as amended. \<open>register\<close> called with an email that an account already has
  does not fail with a duplicate-email error. \<open>storeUserInMySQL\<close> drops the table
  \<open>users\<close> and creates it again before it inserts, so that, when no statement fails and
  the document store accepts the profile, \<open>register\<close> succeeds with the account id 1 and
  the table holds one row afterwards, the new account: the accounts that were stored
  before are gone. Emails stay unique in the table after every call, whatever fails
  (lemma \<open>register_unique_emails\<close>).
\<close>

theorem register_existing_email:
  assumes "users (mysql_of s) = Some rows" and "email userData \<in> set (map email_col rows)"
    and "faults (mysql_of s) = []" and "mongo_up (mongodb_of s)"
    and "length (key_draw d) = 32" and "length (iv_first d) = 16" and "length (iv_last d) = 16"
    and "length (iv_phone d) = 16"
    and "length (email userData) \<le> 255" and "length (H (password userData) (salt d)) \<le> 255"
  shows "\<exists>s'. register E H s d now userData = (Inr (registered d 1), s')
              \<and> users (mysql_of s')
                  = Some [new_row (email userData) (H (password userData) (salt d)) 1]"
  using register_stored [where H = H and d = d and s = s and userData = userData and E = E
      and now = now, OF assms(5-8,4) storeUserInMySQL_try_no_fault [OF assms(3,9,10)]]
  by auto

theorem register_existing_email_witness:
  "\<exists>s'. register xor_block sample_hash (sample_services one_account) sample_draws 0 alice
            = (Inr (registered sample_draws 1), s')
          \<and> users (mysql_of s')
              = Some [new_row (email alice) (sample_hash (password alice) (salt sample_draws)) 1]"
  by (rule register_existing_email [where rows = "[new_row (js ''a@x.com'') (js ''old-hash'') 1]"])
     (simp_all add: sample_services_def one_account_def alice_def length_sample_key_bytes
        length_sample_iv new_row_def sample_hash_def sample_draws_def js_def)

text \<open>
  The claim as stated fails here: the store holds the account \<open>a@x.com\<close>, \<open>register\<close>
  is called with the same email, it succeeds, and the stored record is a different one
  afterwards.
\<close>

theorem duplicate_email_counterexample:
  "(case register xor_block sample_hash (sample_services one_account) sample_draws 0 alice of
      (Inl e, s') \<Rightarrow> False
    | (Inr res, s') \<Rightarrow>
        success res \<and> users one_account = Some [new_row (js ''a@x.com'') (js ''old-hash'') 1]
        \<and> users (mysql_of s') = Some [new_row (js ''a@x.com'') (js ''sStr0ng!Pass'') 1])"
proof -
  have "storeUserInMySQL_try (mysql_of (sample_services one_account)) (email alice)
          (sample_hash (password alice) (salt sample_draws))
        = (Inr 1, one_account\<lparr>user_sessions := Some [],
              users := Some [new_row (js ''a@x.com'') (js ''sStr0ng!Pass'') 1],
              users_auto_increment := 2\<rparr>)"
    by (subst storeUserInMySQL_try_no_fault)
       (simp_all add: sample_services_def one_account_def alice_def sample_hash_def
          sample_draws_def js_def)
  from register_stored [where H = sample_hash and d = sample_draws and userData = alice
      and s = "sample_services one_account" and E = xor_block and now = 0,
      OF sample_draws_lengths _ this]
  show ?thesis
    by (auto simp: sample_services_def registered_def one_account_def)
qed




section \<open>Updating a profile\<close>

text \<open>
  \<open>UserRepository\<close> has a connection of its own. An object is a list of its properties in
  the order of \<open>Object.keys\<close>; a bound parameter is a JavaScript value or a \<open>Date\<close>. The
  table \<open>users\<close> is kept with its column names, since the statements that the repository
  sends name their columns: a statement that names a column the table does not have
  fails. The calls of \<open>this.db.execute\<close> are recorded in the order in which they are made:
  \<open>SelectById id\<close> is the \<open>SELECT\<close> of \<open>findById\<close>, and \<open>Update fields id\<close> is
  \<open>UPDATE users SET <field> = ?, ..., updated_at = NOW() WHERE id = ?\<close> with the values of
  the fields and the id as its parameters.
\<close>

datatype param = Js jsval | Date nat

type_synonym object = "(string \<times> param) list"

datatype query = SelectById nat | Update object nat

record user_table =
  available :: bool
  columns :: "string list"
  rows :: "nat \<rightharpoonup> (string \<rightharpoonup> param)"
  executed :: "query list"

datatype update_error = ConnectionFailed | UnknownColumn | UndefinedParameter | TypeError

text \<open>
  \<open>SELECT id, username, ... FROM users WHERE id = ?\<close>, then \<open>rows[0] || null\<close>: the row's
  values in the selected columns. Without a connection \<open>initialize\<close> throws, and nothing
  is executed.
\<close>

definition selected :: "string list" where
  "selected = [''id'', ''username'', ''email'', ''display_name'', ''bio'', ''avatar_url'',
               ''is_active'', ''is_verified'', ''created_at'']"

definition findById :: "user_table \<Rightarrow> nat \<Rightarrow> (update_error + object option) \<times> user_table" where
  "findById db i =
     (if \<not> available db then (Inl ConnectionFailed, db)
      else (let db' = db\<lparr>executed := executed db @ [SelectById i]\<rparr> in
            if \<not> set selected \<subseteq> set (columns db) then (Inl UnknownColumn, db')
            else (case rows db i of
                    None \<Rightarrow> (Inr None, db')
                  | Some r \<Rightarrow>
                      (Inr (Some (map (\<lambda>c. (c, case r c of None \<Rightarrow> Js JNull | Some v \<Rightarrow> v)) selected)),
                       db'))))"

text \<open>
  The \<open>UPDATE\<close>: a parameter that is \<open>undefined\<close> is refused by the driver, a column that
  the table does not have by the server; otherwise the assignments are made from left to
  right in the row with that key, if there is one.
\<close>

definition assign :: "object \<Rightarrow> (string \<rightharpoonup> param) \<Rightarrow> (string \<rightharpoonup> param)" where
  "assign field_list r = fold (\<lambda>(c, v) m. m(c \<mapsto> v)) field_list r"

definition execute_update :: "user_table \<Rightarrow> object \<Rightarrow> nat \<Rightarrow> nat \<Rightarrow> (update_error + unit) \<times> user_table" where
  "execute_update db field_list i now =
     (if \<not> available db then (Inl ConnectionFailed, db)
      else (let db' = db\<lparr>executed := executed db @ [Update field_list i]\<rparr> in
            if Js JUndefined \<in> set (map snd field_list) then (Inl UndefinedParameter, db')
            else if \<not> set (map fst field_list) \<union> {''updated_at''} \<subseteq> set (columns db)
            then (Inl UnknownColumn, db')
            else (case rows db i of
                    None \<Rightarrow> (Inr (), db')
                  | Some r \<Rightarrow>
                      (Inr (), db'\<lparr>rows := (rows db)(i \<mapsto>
                                  assign (field_list @ [(''updated_at'', Date now)]) r)\<rparr>))))"

text \<open>\<open>UserRepository.update\<close>.\<close>

definition update :: "user_table \<Rightarrow> nat \<Rightarrow> object \<Rightarrow> nat \<Rightarrow> (update_error + object option) \<times> user_table" where
  "update db i updateData now =
     (let field_list = filter (\<lambda>(key, v). key \<noteq> ''id'' \<and> key \<noteq> ''password_hash'') updateData in
      if length field_list = 0 then findById db i
      else (case execute_update db field_list i now of
              (Inl e, db') \<Rightarrow> (Inl e, db')
            | (Inr u, db') \<Rightarrow> findById db' i))"

text \<open>
  \<open>UserService.updateProfile\<close>. Destructuring \<open>null\<close> (no row with that key) throws a
  TypeError.
\<close>

definition allowedFields :: "string list" where
  "allowedFields = [''firstName'', ''lastName'', ''bio'', ''dateOfBirth'', ''location'',
                    ''website'', ''phoneNumber'']"

definition updateProfile :: "user_table \<Rightarrow> nat \<Rightarrow> (string \<times> jsval) list \<Rightarrow> nat \<Rightarrow> (update_error + object) \<times> user_table" where
  "updateProfile db user updateData now =
     (let filteredData = map (\<lambda>(key, v). (key, Js v))
                           (filter (\<lambda>(key, v). key \<in> set allowedFields) updateData)
                         @ [(''updatedAt'', Date now)] in
      case update db user filteredData now of
        (Inl error, db') \<Rightarrow> (Inl error, db')
      | (Inr None, db') \<Rightarrow> (Inl TypeError, db')
      | (Inr (Some updatedUser), db') \<Rightarrow>
          (Inr (filter (\<lambda>(key, v). key \<noteq> ''password'') updatedUser), db'))"

text \<open>
  The columns of the three \<open>CREATE TABLE users\<close> statements of the repository: the one of
  \<open>createMySQLTables\<close>, whose columns are those that \<open>findById\<close> selects, the one of
  \<open>database/schema.sql\<close>, and the one that \<open>storeUserInMySQL\<close> executes at every
  registration.
\<close>

definition createMySQLTables_columns :: "string list" where
  "createMySQLTables_columns =
     [''id'', ''username'', ''email'', ''password_hash'', ''display_name'', ''bio'', ''avatar_url'',
      ''is_active'', ''is_verified'', ''last_login'', ''created_at'', ''updated_at'']"

definition schema_sql_columns :: "string list" where
  "schema_sql_columns =
     [''id'', ''email'', ''first_name'', ''last_name'', ''phone'', ''password_hash'', ''session_id'',
      ''auth_key'', ''encryption_key'', ''role'', ''status'', ''email_verified'', ''phone_verified'',
      ''two_factor_enabled'', ''last_login'', ''login_count'', ''created_at'', ''updated_at'']"

definition storeUserInMySQL_columns :: "string list" where
  "storeUserInMySQL_columns =
     [''id'', ''email'', ''password_hash'', ''session_id'', ''auth_key'', ''encryption_key'',
      ''first_name'', ''last_name'', ''phone'', ''created_at'']"

text \<open>
  Two tables with one account each: the table of \<open>createMySQLTables\<close>, and the table that
  \<open>storeUserInMySQL\<close> creates, with a row that holds an encryption key.
\<close>

definition created_table :: user_table where
  "created_table = \<lparr>available = True, columns = createMySQLTables_columns,
     rows = [1 \<mapsto> [''id'' \<mapsto> Js (JNum 1), ''username'' \<mapsto> Js (JStr (js ''alice'')),
                    ''email'' \<mapsto> Js (JStr (js ''a@x.com'')),
                    ''password_hash'' \<mapsto> Js (JStr (js ''h'')),
                    ''bio'' \<mapsto> Js (JStr (js ''old'')), ''created_at'' \<mapsto> Date 0]],
     executed = []\<rparr>"

definition recreated_table :: user_table where
  "recreated_table = \<lparr>available = True, columns = storeUserInMySQL_columns,
     rows = [1 \<mapsto> [''id'' \<mapsto> Js (JNum 1), ''email'' \<mapsto> Js (JStr (js ''a@x.com'')),
                    ''password_hash'' \<mapsto> Js (JStr (js ''h'')),
                    ''encryption_key'' \<mapsto> Js (JStr (hex_encode sample_key)),
                    ''created_at'' \<mapsto> Date 0]],
     executed = []\<rparr>"

subsection \<open>What updateProfile sends and stores\<close>

lemma assign_distinct:
  "distinct (map fst fs) \<Longrightarrow> assign fs r c = (case map_of fs c of None \<Rightarrow> r c | Some v \<Rightarrow> Some v)"
  unfolding assign_def
proof (induction fs arbitrary: r)
  case Nil
  then show ?case by simp
next
  case (Cons a fs)
  obtain k v where a: "a = (k, v)" by (cases a)
  from Cons.prems have d: "distinct (map fst fs)" and k: "map_of fs k = None"
    by (auto simp: a map_of_eq_None_iff)
  have "fold (\<lambda>(c, v) m. m(c \<mapsto> v)) (a # fs) r c
          = fold (\<lambda>(c, v) m. m(c \<mapsto> v)) fs (r(k \<mapsto> v)) c"
    by (simp add: a)
  also have "\<dots> = (case map_of fs c of None \<Rightarrow> (r(k \<mapsto> v)) c | Some w \<Rightarrow> Some w)"
    by (rule Cons.IH [OF d])
  also have "\<dots> = (case map_of (a # fs) c of None \<Rightarrow> r c | Some w \<Rightarrow> Some w)"
    using k by (auto simp: a split: option.splits)
  finally show ?case .
qed

lemma allowed_not_reserved:
  "key \<in> set allowedFields \<Longrightarrow> key \<noteq> ''id'' \<and> key \<noteq> ''password_hash'' \<and> key \<noteq> ''updatedAt''
     \<and> key \<noteq> ''updated_at'' \<and> key \<noteq> ''encryption_key''"
  by (auto simp: allowedFields_def)

lemma fst_filteredData:
  "map fst (map (\<lambda>(key, v). (key, Js v)) (filter (\<lambda>(key, v). key \<in> set allowedFields) updateData))
     = filter (\<lambda>key. key \<in> set allowedFields) (map fst updateData)"
  by (induction updateData) auto

lemma map_of_filteredData:
  "map_of (map (\<lambda>(key, v). (key, Js v)) (filter (\<lambda>(key, v). key \<in> set allowedFields) updateData)) c
     = (if c \<in> set allowedFields then map_option Js (map_of updateData c) else None)"
  by (induction updateData) auto

lemma filter_reserved:
  "filter (\<lambda>(key, v). key \<noteq> ''id'' \<and> key \<noteq> ''password_hash'')
      (map (\<lambda>(key, v). (key, Js v)) (filter (\<lambda>(key, v). key \<in> set allowedFields) updateData))
   = map (\<lambda>(key, v). (key, Js v)) (filter (\<lambda>(key, v). key \<in> set allowedFields) updateData)"
  using allowed_not_reserved by (induction updateData) auto

text \<open>
  The row after the \<open>UPDATE\<close> of \<open>updateProfile\<close>: the allowed fields that were supplied
  hold the supplied values, \<open>updatedAt\<close> and \<open>updated_at\<close> hold the time of the call, and
  every other column holds what it held.
\<close>

lemma assign_filteredData:
  assumes "distinct (map fst updateData)"
  shows "assign (map (\<lambda>(key, v). (key, Js v)) (filter (\<lambda>(key, v). key \<in> set allowedFields) updateData)
                 @ [(''updatedAt'', Date now), (''updated_at'', Date now)]) r
         = (\<lambda>c. if c = ''updatedAt'' \<or> c = ''updated_at'' then Some (Date now)
                 else if c \<in> set allowedFields
                      then (case map_of updateData c of None \<Rightarrow> r c | Some v \<Rightarrow> Some (Js v))
                      else r c)"
proof
  fix c
  define A where "A = map (\<lambda>(key, v). (key, Js v))
                        (filter (\<lambda>(key, v). key \<in> set allowedFields) updateData)"
  have fa: "map fst A = filter (\<lambda>key. key \<in> set allowedFields) (map fst updateData)"
    unfolding A_def by (rule fst_filteredData)
  have "''updatedAt'' \<notin> set (map fst A)" and "''updated_at'' \<notin> set (map fst A)"
    unfolding fa using allowed_not_reserved by auto
  moreover have "distinct (map fst A)"
    unfolding fa using assms by simp
  ultimately have d: "distinct (map fst (A @ [(''updatedAt'', Date now), (''updated_at'', Date now)]))"
    by simp
  have m: "map_of (A @ [(''updatedAt'', Date now), (''updated_at'', Date now)]) c
             = (if c \<in> set allowedFields then map_option Js (map_of updateData c)
                else if c = ''updatedAt'' \<or> c = ''updated_at'' then Some (Date now) else None)"
    using allowed_not_reserved [of c]
    by (auto simp: A_def map_of_filteredData map_add_def split: option.splits)
  show "assign (A @ [(''updatedAt'', Date now), (''updated_at'', Date now)]) r c
          = (if c = ''updatedAt'' \<or> c = ''updated_at'' then Some (Date now)
             else if c \<in> set allowedFields
                  then (case map_of updateData c of None \<Rightarrow> r c | Some v \<Rightarrow> Some (Js v))
                  else r c)"
    unfolding assign_distinct [OF d] m
    using allowed_not_reserved [of c] by (auto split: option.splits)
qed

lemma update_filteredData:
  "update db i (map (\<lambda>(key, v). (key, Js v)) (filter (\<lambda>(key, v). key \<in> set allowedFields) updateData)
                @ [(''updatedAt'', Date now)]) now
     = (case execute_update db
               (map (\<lambda>(key, v). (key, Js v)) (filter (\<lambda>(key, v). key \<in> set allowedFields) updateData)
                @ [(''updatedAt'', Date now)]) i now of
          (Inl e, db') \<Rightarrow> (Inl e, db')
        | (Inr u, db') \<Rightarrow> findById db' i)"
  by (simp add: update_def filter_reserved)

text \<open>
  A table without a column \<open>updatedAt\<close> refuses the statement of \<open>updateProfile\<close>; none of
  the three tables of the repository has one.
\<close>

lemma no_updatedAt_column:
  "''updatedAt'' \<notin> set createMySQLTables_columns" "''updatedAt'' \<notin> set schema_sql_columns"
  "''updatedAt'' \<notin> set storeUserInMySQL_columns"
  by (simp_all add: createMySQLTables_columns_def schema_sql_columns_def storeUserInMySQL_columns_def)

lemma updateProfile_refused:
  assumes "available db" and "''updatedAt'' \<notin> set (columns db)"
    and "JUndefined \<notin> set (map snd updateData)"
  shows "updateProfile db i updateData now
           = (Inl UnknownColumn,
              db\<lparr>executed := executed db @
                   [Update (map (\<lambda>(key, v). (key, Js v))
                              (filter (\<lambda>(key, v). key \<in> set allowedFields) updateData)
                            @ [(''updatedAt'', Date now)]) i]\<rparr>)"
proof -
  define A where "A = map (\<lambda>(key, v). (key, Js v))
                        (filter (\<lambda>(key, v). key \<in> set allowedFields) updateData)"
  have u: "Js JUndefined \<notin> set (map snd (A @ [(''updatedAt'', Date now)]))"
    using assms(3) by (force simp: A_def)
  have e: "execute_update db (A @ [(''updatedAt'', Date now)]) i now
             = (Inl UnknownColumn, db\<lparr>executed := executed db @ [Update (A @ [(''updatedAt'', Date now)]) i]\<rparr>)"
    unfolding execute_update_def Let_def using assms(1,2) u by simp
  show ?thesis
    unfolding updateProfile_def Let_def A_def [symmetric] update_filteredData [of db i updateData now, folded A_def]
    by (simp add: e)
qed

text \<open>Every ciphertext that \<open>encrypt\<close> returns has a colon in it.\<close>

lemma aes_encrypt_has_colon: "aes_encrypt E iv P key = Inr c \<Longrightarrow> colon \<in> set c"
  by (auto simp: aes_encrypt_def Let_def split: if_splits)

subsection \<open>The claim about updateProfile\<close>

text \<open>
  Claim C8, as amended. \<open>updateProfile\<close> does not encrypt. For every existing account,
  over an open connection, it has one \<open>UPDATE\<close> executed, which binds each supplied field
  whose name is in its allow-list to the value as it was supplied and \<open>updatedAt\<close> to the
  current date, and which sets \<open>updated_at\<close>. Then either the call fails and every row is
  as it was, or the account's row holds exactly these values: every other column of the
  row, the allowed fields that were not supplied among them, and every other row keep
  their values. In both cases the column \<open>encryption_key\<close> of the row holds what it held:
  the key is not replaced.
\<close>

theorem updateProfile_stores_supplied_values:
  assumes "available db" and "rows db i = Some r" and "distinct (map fst updateData)"
  shows "\<exists>res db' more.
      updateProfile db i updateData now = (res, db')
    \<and> executed db' = executed db
         @ Update (map (\<lambda>(key, v). (key, Js v))
                     (filter (\<lambda>(key, v). key \<in> set allowedFields) updateData)
                   @ [(''updatedAt'', Date now)]) i # more
    \<and> (more = [] \<or> more = [SelectById i])
    \<and> available db' = available db \<and> columns db' = columns db
    \<and> ((\<exists>e. res = Inl e) \<and> rows db' = rows db
       \<or> rows db' = (rows db)(i \<mapsto>
            (\<lambda>c. if c = ''updatedAt'' \<or> c = ''updated_at'' then Some (Date now)
                 else if c \<in> set allowedFields
                      then (case map_of updateData c of None \<Rightarrow> r c | Some v \<Rightarrow> Some (Js v))
                      else r c)))
    \<and> map_option (\<lambda>row. row ''encryption_key'') (rows db' i) = Some (r ''encryption_key'')"
proof -
  define A where "A = map (\<lambda>(key, v). (key, Js v))
                        (filter (\<lambda>(key, v). key \<in> set allowedFields) updateData)"
  define F where "F = A @ [(''updatedAt'', Date now)]"
  define db1 where "db1 = db\<lparr>executed := executed db @ [Update F i]\<rparr>"
  define r' where "r' = (\<lambda>c. if c = ''updatedAt'' \<or> c = ''updated_at'' then Some (Date now)
                 else if c \<in> set allowedFields
                      then (case map_of updateData c of None \<Rightarrow> r c | Some v \<Rightarrow> Some (Js v))
                      else r c)"
  define db2 where "db2 = db1\<lparr>rows := (rows db)(i \<mapsto> r')\<rparr>"
  have up: "updateProfile db i updateData now
              = (case (case execute_update db F i now of
                         (Inl e, db') \<Rightarrow> (Inl e, db')
                       | (Inr u, db') \<Rightarrow> findById db' i) of
                   (Inl error, db') \<Rightarrow> (Inl error, db')
                 | (Inr None, db') \<Rightarrow> (Inl TypeError, db')
                 | (Inr (Some updatedUser), db') \<Rightarrow>
                     (Inr (filter (\<lambda>(key, v). key \<noteq> ''password'') updatedUser), db'))"
    unfolding updateProfile_def Let_def F_def A_def update_filteredData ..
  have as: "assign (F @ [(''updated_at'', Date now)]) r = r'"
    unfolding F_def A_def r'_def using assign_filteredData [OF assms(3), of now r] by simp
  have ex: "execute_update db F i now =
              (if Js JUndefined \<in> set (map snd F) then (Inl UndefinedParameter, db1)
               else if \<not> set (map fst F) \<union> {''updated_at''} \<subseteq> set (columns db)
               then (Inl UnknownColumn, db1)
               else (Inr (), db2))"
    unfolding execute_update_def Let_def db2_def db1_def as [symmetric] using assms(1,2) by simp
  have fb: "findById db2 i =
              (if \<not> set selected \<subseteq> set (columns db) then Inl UnknownColumn
               else Inr (Some (map (\<lambda>c. (c, case r' c of None \<Rightarrow> Js JNull | Some v \<Rightarrow> v)) selected)),
               db2\<lparr>executed := executed db2 @ [SelectById i]\<rparr>)"
    unfolding findById_def Let_def using assms(1) by (simp add: db2_def db1_def)
  have k: "r' ''encryption_key'' = r ''encryption_key''"
    by (simp add: r'_def allowedFields_def)
  have "(\<exists>e. execute_update db F i now = (Inl e, db1)) \<or> execute_update db F i now = (Inr (), db2)"
    unfolding ex by simp
  then consider (refused) e where "execute_update db F i now = (Inl e, db1)"
    | (accepted) "execute_update db F i now = (Inr (), db2)"
    by blast
  then show ?thesis
  proof cases
    case refused
    then have "updateProfile db i updateData now = (Inl e, db1)"
      unfolding up by simp
    then show ?thesis
      unfolding A_def [symmetric] F_def [symmetric] r'_def [symmetric]
      by (intro exI [of _ "Inl e"] exI [of _ db1] exI [of _ "[]"]) (simp add: db1_def assms(2))
  next
    case accepted
    then have "\<exists>res. updateProfile db i updateData now = (res, db2\<lparr>executed := executed db2 @ [SelectById i]\<rparr>)"
      unfolding up by (simp add: fb)
    then obtain res where "updateProfile db i updateData now = (res, db2\<lparr>executed := executed db2 @ [SelectById i]\<rparr>)"
      by blast
    then show ?thesis
      unfolding A_def [symmetric] F_def [symmetric] r'_def [symmetric]
      by (intro exI [of _ res] exI [of _ "db2\<lparr>executed := executed db2 @ [SelectById i]\<rparr>"]
            exI [of _ "[SelectById i]"]) (simp add: db2_def db1_def k)
  qed
qed

theorem updateProfile_stores_supplied_values_witness:
  "\<exists>res db' more.
      updateProfile created_table 1
        [(''bio'', JStr (js ''hello'')), (''role'', JStr (js ''admin''))] 5 = (res, db')
    \<and> executed db' = Update [(''bio'', Js (JStr (js ''hello''))), (''updatedAt'', Date 5)] 1 # more
    \<and> res = Inl UnknownColumn \<and> rows db' = rows created_table"
proof -
  have h1: "available created_table"
    by (simp add: created_table_def)
  have h2: "rows created_table 1
              = Some [''id'' \<mapsto> Js (JNum 1), ''username'' \<mapsto> Js (JStr (js ''alice'')),
                      ''email'' \<mapsto> Js (JStr (js ''a@x.com'')),
                      ''password_hash'' \<mapsto> Js (JStr (js ''h'')),
                      ''bio'' \<mapsto> Js (JStr (js ''old'')), ''created_at'' \<mapsto> Date 0]"
    by (simp add: created_table_def)
  have h3: "distinct (map fst [(''bio'', JStr (js ''hello'')), (''role'', JStr (js ''admin''))])"
    by simp
  from updateProfile_stores_supplied_values [OF h1 h2 h3, of 5]
  obtain res db' more where
    1: "updateProfile created_table 1
          [(''bio'', JStr (js ''hello'')), (''role'', JStr (js ''admin''))] 5 = (res, db')"
    and 2: "executed db' = executed created_table
              @ Update (map (\<lambda>(key, v). (key, Js v))
                          (filter (\<lambda>(key, v). key \<in> set allowedFields)
                             [(''bio'', JStr (js ''hello'')), (''role'', JStr (js ''admin''))])
                        @ [(''updatedAt'', Date 5)]) 1 # more"
    by blast
  have "updateProfile created_table 1
          [(''bio'', JStr (js ''hello'')), (''role'', JStr (js ''admin''))] 5
        = (Inl UnknownColumn,
           created_table\<lparr>executed := executed created_table @
              [Update (map (\<lambda>(key, v). (key, Js v))
                         (filter (\<lambda>(key, v). key \<in> set allowedFields)
                            [(''bio'', JStr (js ''hello'')), (''role'', JStr (js ''admin''))])
                       @ [(''updatedAt'', Date 5)]) 1]\<rparr>)"
    by (rule updateProfile_refused) (simp_all add: created_table_def no_updatedAt_column)
  with 1 have 3: "res = Inl UnknownColumn" "rows db' = rows created_table"
    by auto
  from 2 have 4: "executed db' = Update [(''bio'', Js (JStr (js ''hello''))), (''updatedAt'', Date 5)] 1 # more"
    by (simp add: created_table_def allowedFields_def)
  from 1 3 4 show ?thesis
    by blast
qed

text \<open>
  The claim as stated (the supplied fields are stored as ciphertext under the account's
  key) fails on the table that \<open>storeUserInMySQL\<close> creates, for an account whose row holds a
  key: the one statement executed binds the supplied text \<open>Alice\<close> itself, which has no colon
  in it and so is no ciphertext, the statement is refused, and the table is as it was.
\<close>

theorem updateProfile_counterexample:
  "updateProfile recreated_table 1 [(''firstName'', JStr (js ''Alice''))] 5
     = (Inl UnknownColumn,
        recreated_table\<lparr>executed :=
          [Update [(''firstName'', Js (JStr (js ''Alice''))), (''updatedAt'', Date 5)] 1]\<rparr>)
   \<and> colon \<notin> set (js ''Alice'')"
proof -
  have "updateProfile recreated_table 1 [(''firstName'', JStr (js ''Alice''))] 5
        = (Inl UnknownColumn,
           recreated_table\<lparr>executed := executed recreated_table @
              [Update (map (\<lambda>(key, v). (key, Js v))
                         (filter (\<lambda>(key, v). key \<in> set allowedFields)
                            [(''firstName'', JStr (js ''Alice''))])
                       @ [(''updatedAt'', Date 5)]) 1]\<rparr>)"
    by (rule updateProfile_refused) (simp_all add: recreated_table_def no_updatedAt_column)
  moreover have "colon \<notin> set (js ''Alice'')"
    by (simp add: js_def colon_def)
  ultimately show ?thesis
    by (simp add: recreated_table_def allowedFields_def)
qed

text \<open>
  Were the table of \<open>createMySQLTables\<close> to have a column \<open>updatedAt\<close> as well, the statement
  would be accepted, and the row would hold the supplied text.
\<close>

lemma updateProfile_accepted_example:
  "\<exists>p db'. updateProfile (created_table\<lparr>columns := createMySQLTables_columns @ [''updatedAt'']\<rparr>) 1
              [(''bio'', JStr (js ''hello'')), (''role'', JStr (js ''admin''))] 5 = (Inr p, db')
     \<and> map_option (\<lambda>r. (r ''bio'', r ''role'', r ''username'', r ''updatedAt'')) (rows db' 1)
         = Some (Some (Js (JStr (js ''hello''))), None, Some (Js (JStr (js ''alice''))), Some (Date 5))"
  by (simp add: updateProfile_def update_def execute_update_def findById_def created_table_def
      createMySQLTables_columns_def allowedFields_def selected_def assign_def Let_def)

end
